theory Spec2Isabelle
  imports
    Complex_Main
    "HOL-Library.Char_ord"
    "HOL-Library.List_Lexorder"
    "HOL-Library.Product_Lexorder"
    "HOL-Library.Extended_Nat"
begin

section \<open>Data model\<close>

text \<open>
  A \<open>Buffer\<close> is a list of bytes. Hex strings such as \<open>hash.toString('hex')\<close> are
  used by the storage only as map keys; the encoding is injective, so a key is
  modelled by the buffer it encodes.
\<close>

type_synonym bytes = string

text \<open>
  \<open>BanError\<close> and the plain JavaScript \<open>Error\<close>. The string is the fixed part of
  the message; interpolated values are left out.
\<close>

datatype error = BanError string | Error string

fun isBanError :: "error + 'a \<Rightarrow> bool" where
  "isBanError (Inl (BanError r)) = True"
| "isBanError (Inl (Error r)) = False"
| "isBanError (Inr v) = False"

text \<open>
  A JavaScript number that holds a time, as the protobuf codec decodes a \<open>double\<close>
  from the wire: a real, on which arithmetic and comparison are exact, or \<open>NaN\<close>.
  Every comparison with \<open>NaN\<close> is false; \<open>Math.max\<close> and the subtraction hand
  \<open>NaN\<close> on. The infinities are left out: in every comparison below they behave
  as a real beyond the bound. The clock \<open>now()\<close> is a real. \<open>height\<close> is an integer.
\<close>

datatype number = NaN | Num real

fun js_less :: "number \<Rightarrow> number \<Rightarrow> bool" where
  "js_less (Num x) (Num y) \<longleftrightarrow> x < y"
| "js_less NaN y \<longleftrightarrow> False"
| "js_less (Num x) NaN \<longleftrightarrow> False"

fun js_less_eq :: "number \<Rightarrow> number \<Rightarrow> bool" where
  "js_less_eq (Num x) (Num y) \<longleftrightarrow> x \<le> y"
| "js_less_eq NaN y \<longleftrightarrow> False"
| "js_less_eq (Num x) NaN \<longleftrightarrow> False"

definition js_greater :: "number \<Rightarrow> number \<Rightarrow> bool" where
  "js_greater a b \<longleftrightarrow> js_less b a"

definition js_greater_eq :: "number \<Rightarrow> number \<Rightarrow> bool" where
  "js_greater_eq a b \<longleftrightarrow> js_less_eq b a"

fun Math_max :: "number \<Rightarrow> number \<Rightarrow> number" where
  "Math_max (Num x) (Num y) = Num (max x y)"
| "Math_max NaN y = NaN"
| "Math_max (Num x) NaN = NaN"

fun js_minus :: "number \<Rightarrow> number \<Rightarrow> number" where
  "js_minus (Num x) (Num y) = Num (x - y)"
| "js_minus NaN y = NaN"
| "js_minus (Num x) NaN = NaN"

record link =
  validFrom :: number
  validTo :: number
  trusteePubKey :: bytes
  trusteeDisplayName :: string
  linkSignature :: bytes

datatype body = Root | Json string

record content =
  chain :: "link list"
  timestamp :: number
  body :: body
  signature :: bytes

text \<open>
  A \<open>Message\<close> object. The type parameter is the state of its \<open>content\<close> field:
  \<open>content option\<close> for a message that may still be encrypted (as it comes from
  the wire), \<open>content\<close> once it has been decrypted, which is how messages sit in
  the in-memory storage.
\<close>

record 'c message =
  channelId :: bytes
  parents :: "bytes list"
  height :: int
  nonce :: bytes
  encryptedContent :: bytes
  content :: 'c
  hash :: bytes

definition decrypted :: "'a message \<Rightarrow> content \<Rightarrow> content message" where
  "decrypted m c =
     \<lparr>channelId = channelId m, parents = parents m, height = height m, nonce = nonce m,
      encryptedContent = encryptedContent m, content = c, hash = hash m\<rparr>"

text \<open>
  The \<open>sodium\<close> object handed to every constructor through \<open>options.sodium\<close>.
  Output buffers become results; \<open>crypto_secretbox_open_easy\<close> returns the
  clear text, or \<open>None\<close> where the library returns \<open>false\<close>. The bytes that
  \<open>randombytes_buf\<close> writes are an argument \<open>rnd\<close> of the functions that draw them:
  \<open>rnd i\<close> is the byte written at index \<open>i\<close>. The functions take buffers;
  handed anything else, such as \<open>false\<close> for a key, the library throws a
  \<open>TypeError\<close>, which is written out where the code can do so.
\<close>

record sodium =
  crypto_secretbox_NONCEBYTES :: nat
  crypto_secretbox_MACBYTES :: nat
  crypto_secretbox_KEYBYTES :: nat
  crypto_sign_BYTES :: nat
  crypto_sign_PUBLICKEYBYTES :: nat
  crypto_secretbox_easy :: "bytes \<Rightarrow> bytes \<Rightarrow> bytes \<Rightarrow> bytes"
  crypto_secretbox_open_easy :: "bytes \<Rightarrow> bytes \<Rightarrow> bytes \<Rightarrow> bytes option"
  crypto_sign_detached :: "bytes \<Rightarrow> bytes \<Rightarrow> bytes"
  crypto_sign_verify_detached :: "bytes \<Rightarrow> bytes \<Rightarrow> bytes \<Rightarrow> bool"
  crypto_generichash :: "nat \<Rightarrow> bytes \<Rightarrow> bytes option \<Rightarrow> bytes"

text \<open>
  The generated protobuf codec of \<open>lib/messages.js\<close> and \<open>JSON.parse\<close>, taken as
  parameters. \<open>JSON_parse s\<close> says that parsing \<open>s\<close> does not throw.
\<close>

record codec =
  Content_encode :: "content \<Rightarrow> bytes"
  Content_decode :: "bytes \<Rightarrow> content option"
  Content_TBS_encode :: "link list \<Rightarrow> number \<Rightarrow> body \<Rightarrow> bytes list \<Rightarrow> int \<Rightarrow> bytes"
  Link_TBS_encode :: "bytes \<Rightarrow> number \<Rightarrow> number \<Rightarrow> string \<Rightarrow> bytes \<Rightarrow> bytes"
  ChannelMessage_encode :: "bytes \<Rightarrow> bytes list \<Rightarrow> int \<Rightarrow> bytes \<Rightarrow> bytes \<Rightarrow> bytes"
  JSON_parse :: "string \<Rightarrow> bool"

record channel =
  name :: string
  publicKey :: bytes
  chan_id :: bytes
  encryptionKey :: bytes
  isFeed :: bool
  maxQueryLimit :: nat
  maxUnresolvedCount :: nat
  maxBulkCount :: nat

section \<open>Constants\<close>

definition ID_SIZE :: nat where "ID_SIZE = 32"
definition HASH_SIZE :: nat where "HASH_SIZE = 32"
definition MAX_PARENT_DELTA :: real where "MAX_PARENT_DELTA = 30 * 24 * 3600"
definition MAX_QUERY_LIMIT :: nat where "MAX_QUERY_LIMIT = 1024"
definition MAX_UNRESOLVED_COUNT :: nat where "MAX_UNRESOLVED_COUNT = 256 * 1024"
definition MAX_BULK_COUNT :: nat where "MAX_BULK_COUNT = 128"
definition MAX_LEAVES_COUNT :: nat where "MAX_LEAVES_COUNT = 128"
definition FUTURE :: real where "FUTURE = 2 * 60"
definition MAX_LENGTH :: nat where "MAX_LENGTH = 3"
definition MAX_DISPLAY_NAME_LENGTH :: nat where "MAX_DISPLAY_NAME_LENGTH = 128"
definition ID_KEY :: bytes where "ID_KEY = ''peerlinks-channel-id''"
definition ENC_KEY :: bytes where "ENC_KEY = ''peerlinks-symmetric''"

section \<open>Link and Chain\<close>

text \<open>The checks of the \<open>Link\<close> constructor, reached through \<open>Link.deserialize\<close>.\<close>

definition Link_new :: "sodium \<Rightarrow> link \<Rightarrow> error + link" where
  "Link_new sod l =
     (if trusteeDisplayName l = []
        then Inl (BanError ''`trusteeDisplayName` is mandatory for the Link'')
      else if length (trusteeDisplayName l) > MAX_DISPLAY_NAME_LENGTH
        then Inl (BanError ''Invalid trusteeDisplayName length'')
      else if length (linkSignature l) \<noteq> crypto_sign_BYTES sod
        then Inl (BanError ''Invalid signature length'')
      else if length (trusteePubKey l) \<noteq> crypto_sign_PUBLICKEYBYTES sod
        then Inl (BanError ''Invalid public key length'')
      else Inr l)"

definition Link_isValid :: "link \<Rightarrow> real \<Rightarrow> bool" where
  "Link_isValid l ts \<longleftrightarrow> js_less_eq (validFrom l) (Num ts) \<and> js_less (Num ts) (validTo l)"

definition Link_tbs :: "codec \<Rightarrow> channel \<Rightarrow> link \<Rightarrow> bytes" where
  "Link_tbs cod chan l =
     Link_TBS_encode cod (trusteePubKey l) (validFrom l) (validTo l) (trusteeDisplayName l)
       (chan_id chan)"

definition Link_verify :: "sodium \<Rightarrow> codec \<Rightarrow> channel \<Rightarrow> bytes \<Rightarrow> real \<Rightarrow> link \<Rightarrow> bool" where
  "Link_verify sod cod chan pk ts l =
     (if \<not> Link_isValid l ts then False
      else crypto_sign_verify_detached sod (linkSignature l) (Link_tbs cod chan l) pk)"

text \<open>\<open>array.map(f)\<close> with a throwing \<open>f\<close>: the first exception ends the whole map.\<close>

fun map_throw :: "('a \<Rightarrow> error + 'b) \<Rightarrow> 'a list \<Rightarrow> error + 'b list" where
  "map_throw f [] = Inr []"
| "map_throw f (x # xs) =
     (case f x of
        Inl e \<Rightarrow> Inl e
      | Inr y \<Rightarrow> (case map_throw f xs of Inl e \<Rightarrow> Inl e | Inr ys \<Rightarrow> Inr (y # ys)))"

definition Chain_new :: "link list \<Rightarrow> error + link list" where
  "Chain_new links =
     (if length links > MAX_LENGTH then Inl (Error ''Chain length overflow'') else Inr links)"

text \<open>The loop of \<open>Chain.getLeafKey\<close>, with the running \<open>leafKey\<close> as an argument.\<close>

fun getLeafKey_loop ::
  "sodium \<Rightarrow> codec \<Rightarrow> channel \<Rightarrow> real \<Rightarrow> bytes \<Rightarrow> link list \<Rightarrow> bytes option" where
  "getLeafKey_loop sod cod chan ts leafKey [] = Some leafKey"
| "getLeafKey_loop sod cod chan ts leafKey (l # ls) =
     (if \<not> Link_verify sod cod chan leafKey ts l then None
      else getLeafKey_loop sod cod chan ts (trusteePubKey l) ls)"

definition Chain_getLeafKey ::
  "sodium \<Rightarrow> codec \<Rightarrow> channel \<Rightarrow> real \<Rightarrow> link list \<Rightarrow> bytes option" where
  "Chain_getLeafKey sod cod chan ts links = getLeafKey_loop sod cod chan ts (publicKey chan) links"

section \<open>Message\<close>

text \<open>The \<open>chain\<close> getter: deserialize every link, then build the \<open>Chain\<close>.\<close>

definition Message_chain :: "sodium \<Rightarrow> content \<Rightarrow> error + link list" where
  "Message_chain sod c =
     (case map_throw (Link_new sod) (chain c) of
        Inl e \<Rightarrow> Inl e
      | Inr links \<Rightarrow> Chain_new links)"

text \<open>
  \<open>Message.decrypt\<close>. It stores the clear content in the object; the model
  returns it.
\<close>

definition Message_decrypt ::
  "sodium \<Rightarrow> codec \<Rightarrow> channel \<Rightarrow> content option message \<Rightarrow> error + content" where
  "Message_decrypt sod cod chan m =
     (case content m of
        Some c \<Rightarrow> Inr c
      | None \<Rightarrow>
         (case crypto_secretbox_open_easy sod (encryptedContent m) (nonce m) (encryptionKey chan) of
            None \<Rightarrow> Inl (BanError ''Failed to decrypt message content'')
          | Some cleartext \<Rightarrow>
             (case Content_decode cod cleartext of
                None \<Rightarrow> Inl (Error ''Content.decode'')
              | Some c \<Rightarrow>
                 (case body c of
                    Root \<Rightarrow> Inr c
                  | Json j \<Rightarrow>
                     if JSON_parse cod j then Inr c
                     else Inl (BanError ''Invalid JSON content'')))))"

definition Message_tbs :: "codec \<Rightarrow> 'a message \<Rightarrow> content \<Rightarrow> bytes" where
  "Message_tbs cod m c =
     Content_TBS_encode cod (chain c) (timestamp c) (body c) (parents m) (height m)"

text \<open>
  \<open>Message.verify\<close>. \<open>now\<close> is the clock reading that \<open>getLeafKey\<close> takes as its
  default timestamp. The result carries the decrypted content next to the
  verdict. For a chain with a link that does not verify, \<open>getLeafKey\<close> returns
  \<open>false\<close>, which \<open>verify\<close> hands to \<open>crypto_sign_verify_detached\<close> as the key:
  the library throws a \<open>TypeError\<close>.
\<close>

definition Message_verify ::
  "sodium \<Rightarrow> codec \<Rightarrow> channel \<Rightarrow> real \<Rightarrow> content option message \<Rightarrow> error + (bool \<times> content)" where
  "Message_verify sod cod chan now m =
     (case Message_decrypt sod cod chan m of
        Inl e \<Rightarrow> Inl e
      | Inr c \<Rightarrow>
         (case Message_chain sod c of
            Inl e \<Rightarrow> Inl e
          | Inr links \<Rightarrow>
             (case Chain_getLeafKey sod cod chan now links of
                None \<Rightarrow> Inl (Error ''TypeError'')
              | Some leafKey \<Rightarrow>
                 Inr (crypto_sign_verify_detached sod (signature c) (Message_tbs cod m c)
                        leafKey, c))))"

section \<open>In-memory storage\<close>

text \<open>
  The record that \<open>Memory.getChannelData\<close> keeps for one channel id. \<open>leaves\<close> is
  a JavaScript \<open>Set\<close>: its elements in insertion order. The operations below
  work on the record of the one channel under study; the messages handed to them
  carry the id of that channel, which is the key \<open>addMessage\<close> looks the record up
  with.
\<close>

record channel_data =
  messages :: "content message list"
  messageByHash :: "bytes \<rightharpoonup> content message"
  leaves :: "bytes list"

definition empty_data :: channel_data where
  "empty_data = \<lparr>messages = [], messageByHash = Map.empty, leaves = []\<rparr>"

definition Set_delete :: "'a \<Rightarrow> 'a list \<Rightarrow> 'a list" where
  "Set_delete x xs = removeAll x xs"

definition Set_add :: "'a \<Rightarrow> 'a list \<Rightarrow> 'a list" where
  "Set_add x xs = (if x \<in> set xs then xs else xs @ [x])"

text \<open>The comparator of the sort: height first, then \<open>Buffer.compare\<close> of the hashes.\<close>

definition crdt_key :: "content message \<Rightarrow> int \<times> bytes" where
  "crdt_key m = (height m, hash m)"

definition Memory_addMessage :: "content message \<Rightarrow> channel_data \<Rightarrow> channel_data" where
  "Memory_addMessage m d =
     (if messageByHash d (hash m) \<noteq> None then d
      else d\<lparr>messages := sort_key crdt_key (messages d @ [m]),
             messageByHash := (messageByHash d)(hash m \<mapsto> m),
             leaves := Set_add (hash m) (fold Set_delete (parents m) (leaves d))\<rparr>)"

definition Memory_getMessageCount :: "channel_data \<Rightarrow> nat" where
  "Memory_getMessageCount d = length (messages d)"

definition Memory_hasMessage :: "channel_data \<Rightarrow> bytes \<Rightarrow> bool" where
  "Memory_hasMessage d h \<longleftrightarrow> messageByHash d h \<noteq> None"

definition Memory_getMessage :: "channel_data \<Rightarrow> bytes \<Rightarrow> content message option" where
  "Memory_getMessage d h = messageByHash d h"

definition Memory_getMessages :: "channel_data \<Rightarrow> bytes list \<Rightarrow> content message option list" where
  "Memory_getMessages d hashes = map (Memory_getMessage d) hashes"

definition Memory_getLeaves :: "channel_data \<Rightarrow> content message option list" where
  "Memory_getLeaves d = map (Memory_getMessage d) (leaves d)"

section \<open>Channel\<close>

text \<open>
  Modelled from the spec: the \<open>StorageCache\<close> between \<open>Channel\<close> and the storage
  backend (\<open>lib/protocol/cache.js\<close>) is not among the sources. Following the data
  flow of the specification (Channel \<open>\<leftrightarrow>\<close> Storage), each \<open>this.cache.f(...)\<close> is
  the operation \<open>f\<close> of the in-memory backend on the record of this channel.
\<close>

text \<open>
  The \<open>Channel\<close> constructor with the default limits: it derives the id and the
  encryption key of the channel from its public key. An empty \<open>name\<close> counts as
  missing.
\<close>

definition Channel_new :: "sodium \<Rightarrow> string \<Rightarrow> bytes \<Rightarrow> bool \<Rightarrow> error + channel" where
  "Channel_new sod nm pk feed =
     (if nm = [] then Inl (Error ''Missing required `name` option'')
      else Inr \<lparr>name = nm, publicKey = pk,
                chan_id = crypto_generichash sod ID_SIZE pk (Some ID_KEY),
                encryptionKey =
                  crypto_generichash sod (crypto_secretbox_KEYBYTES sod) pk (Some ENC_KEY),
                isFeed = feed, maxQueryLimit = MAX_QUERY_LIMIT,
                maxUnresolvedCount = MAX_UNRESOLVED_COUNT, maxBulkCount = MAX_BULK_COUNT\<rparr>)"

definition Channel_getMessageCount :: "channel_data \<Rightarrow> nat" where
  "Channel_getMessageCount d = Memory_getMessageCount d"

definition Channel_getMessages :: "channel_data \<Rightarrow> bytes list \<Rightarrow> content message option list" where
  "Channel_getMessages d hashes = Memory_getMessages d hashes"

definition Channel_getLeaves :: "channel_data \<Rightarrow> content message option list" where
  "Channel_getLeaves d = take MAX_LEAVES_COUNT (Memory_getLeaves d)"

definition computeHeight :: "content message list \<Rightarrow> int" where
  "computeHeight ps = foldl (\<lambda>acc parent. max acc (height parent + 1)) 0 ps"

definition adjustTimestamp :: "content message list \<Rightarrow> number \<Rightarrow> number" where
  "adjustTimestamp ps ts =
     foldl (\<lambda>acc parent. Math_max acc (timestamp (content parent))) ts ps"

definition computeMaxTimestamp :: "content message list \<Rightarrow> number" where
  "computeMaxTimestamp ps =
     foldl (\<lambda>acc parent. Math_max acc (timestamp (content parent))) (Num 0) ps"

definition filterParents :: "content message list \<Rightarrow> content message list" where
  "filterParents ps =
     (let mx = computeMaxTimestamp ps;
          mn = js_minus mx (Num MAX_PARENT_DELTA)
      in filter (\<lambda>parent. js_greater_eq (timestamp (content parent)) mn) ps)"

text \<open>\<open>Infinity\<close> is the top element of the extended naturals.\<close>

definition jsonLimit :: "nat \<Rightarrow> error + enat" where
  "jsonLimit chainLength =
     (if chainLength = 0 then Inr \<infinity>
      else if chainLength = 1 then Inr 2097152
      else if chainLength = 2 then Inr 524288
      else if chainLength = 3 then Inr 8192
      else Inl (Error ''Unexpected chain length''))"

definition checkJSONLimit :: "string \<Rightarrow> nat \<Rightarrow> error + unit" where
  "checkJSONLimit json chainLength =
     (case jsonLimit chainLength of
        Inl e \<Rightarrow> Inl e
      | Inr limit \<Rightarrow>
         if enat (length json) > limit then Inl (BanError ''Message body length overflow'')
         else Inr ())"

text \<open>
  \<open>body.json\<close>, with the default \<open>''\<close> of \<open>checkJSONLimit\<close> where it is undefined.
  The \<open>chain.length\<close> that \<open>receive\<close> and \<open>post\<close> hand to \<open>checkJSONLimit\<close> is the
  number of links of the chain.
\<close>

fun body_json :: "body \<Rightarrow> string" where
  "body_json Root = []"
| "body_json (Json j) = j"

text \<open>
  \<open>Channel.receive\<close>. \<open>now\<close> is the value of \<open>now()\<close> during the call. The result
  is what the call returns or throws, and the storage afterwards.
\<close>

definition receive ::
  "sodium \<Rightarrow> codec \<Rightarrow> channel \<Rightarrow> real \<Rightarrow> content option message \<Rightarrow> channel_data
     \<Rightarrow> (error + bool) \<times> channel_data" where
  "receive sod cod chan now m d =
     (if Memory_hasMessage d (hash m) then (Inr False, d)
      else
        (case Message_verify sod cod chan now m of
           Inl e \<Rightarrow> (Inl e, d)
         | Inr (ok, c) \<Rightarrow>
            if \<not> ok then (Inl (BanError ''Invalid message signature, or invalid chain''), d)
            else if length (parents m) > MAX_LEAVES_COUNT
              then (Inl (BanError ''Invalid parent count''), d)
            else
              (case those (Channel_getMessages d (parents m)) of
                 None \<Rightarrow> (Inl (BanError ''Message parent not found''), d)
               | Some ps \<Rightarrow>
                  if length (filterParents ps) \<noteq> length ps
                    then (Inl (BanError ''Parent timestamp delta is greater than 30 days''), d)
                  else if height m \<noteq> computeHeight ps
                    then (Inl (BanError ''Invalid received message height''), d)
                  else if js_greater (timestamp c) (Num (now + FUTURE))
                    then (Inl (BanError ''Received message is in the future''), d)
                  else if js_less (timestamp c) (computeMaxTimestamp ps)
                    then (Inl (BanError ''Received message is in the past''), d)
                  else if length ps = 0 \<and> body c \<noteq> Root
                    then (Inl (BanError ''Invalid root content''), d)
                  else if length ps \<noteq> 0 \<and> body c = Root
                    then (Inl (BanError ''Invalid non-root content''), d)
                  else
                    (case (if length ps \<noteq> 0
                           then checkJSONLimit (body_json (body c)) (length (chain c))
                           else Inr ()) of
                       Inl e \<Rightarrow> (Inl e, d)
                     | Inr u \<Rightarrow> (Inr True, Memory_addMessage (decrypted m c) d)))))"

text \<open>
  \<open>Channel.bulk\<close>. \<open>Message.checkHash\<close> throws for each hash of the wrong size.
\<close>

definition checkHash :: "bytes \<Rightarrow> string \<Rightarrow> error + unit" where
  "checkHash h msg = (if length h \<noteq> HASH_SIZE then Inl (BanError msg) else Inr ())"

record bulk_result =
  bulk_messages :: "content message list"
  forwardIndex :: nat

definition bulk :: "channel \<Rightarrow> bytes list \<Rightarrow> channel_data \<Rightarrow> error + bulk_result" where
  "bulk chan hashes0 d =
     (let hashes = take (maxBulkCount chan) hashes0 in
      case map_throw (\<lambda>h. checkHash h ''Invalid hash size in bulk()'') hashes of
        Inl e \<Rightarrow> Inl e
      | Inr us \<Rightarrow>
         (let maybeMessages = Channel_getMessages d hashes;
              msgs = List.map_filter (\<lambda>x. x) maybeMessages
          in Inr \<lparr>bulk_messages = msgs, forwardIndex = length hashes\<rparr>))"

text \<open>
  The \<open>Message\<close> constructor. Its options are those of the source; \<open>rnd\<close> fills
  the nonce when none is given. With neither \<open>channelId\<close> nor \<open>channel\<close>, reading
  \<open>channel.id\<close> is a \<open>TypeError\<close>.
\<close>

record message_options =
  opt_channel :: "channel option"
  opt_channelId :: "bytes option"
  opt_parents :: "bytes list"
  opt_height :: int
  opt_nonce :: "bytes option"
  opt_content :: "content option"
  opt_encryptedContent :: "bytes option"

definition checkId :: "bytes option \<Rightarrow> string \<Rightarrow> error + unit" where
  "checkId i msg =
     (case i of
        None \<Rightarrow> Inl (BanError msg)
      | Some b \<Rightarrow> if length b \<noteq> ID_SIZE then Inl (BanError msg) else Inr ())"

definition Message_new ::
  "sodium \<Rightarrow> codec \<Rightarrow> (nat \<Rightarrow> char) \<Rightarrow> message_options \<Rightarrow> error + content option message" where
  "Message_new sod cod rnd opts =
     (let cid = (case opt_channelId opts of
                   Some i \<Rightarrow> Some i
                 | None \<Rightarrow> map_option chan_id (opt_channel opts));
          nonce = (case opt_nonce opts of
                     Some n \<Rightarrow> n
                   | None \<Rightarrow> map rnd [0..<crypto_secretbox_NONCEBYTES sod])
      in
      if opt_channelId opts = None \<and> opt_channel opts = None
        then Inl (Error ''TypeError'')
      else
      case checkId cid ''Invalid channel id size'' of
        Inl e \<Rightarrow> Inl e
      | Inr u \<Rightarrow>
      (case map_throw (\<lambda>h. checkHash h ''Invalid parent hash'') (opt_parents opts) of
        Inl e \<Rightarrow> Inl e
      | Inr us \<Rightarrow>
      if opt_height opts < 0 then Inl (BanError ''Invalid height'')
      else if length nonce \<noteq> crypto_secretbox_NONCEBYTES sod
        then Inl (BanError ''Invalid nonce size'')
      else if opt_content opts = None \<and> opt_encryptedContent opts = None
        then Inl (Error ''Either decrypted or encrypted content must be present'')
      else if opt_content opts \<noteq> None \<and> opt_channel opts = None
        then Inl (Error ''`options.channel` is mandatory when `options.content` is present'')
      else if (case opt_encryptedContent opts of
                 None \<Rightarrow> False
               | Some e \<Rightarrow> length e < crypto_secretbox_MACBYTES sod)
        then Inl (BanError ''Invalid encrypted content'')
      else
        (let enc =
               (case opt_encryptedContent opts of
                  Some e \<Rightarrow> e
                | None \<Rightarrow>
                   (case (opt_content opts, opt_channel opts) of
                      (Some c, Some chan) \<Rightarrow>
                        crypto_secretbox_easy sod (Content_encode cod c) nonce (encryptionKey chan)
                    | _ \<Rightarrow> []));
             i = (case cid of Some b \<Rightarrow> b | None \<Rightarrow> [])
         in Inr \<lparr>channelId = i, parents = opt_parents opts, height = opt_height opts,
                 nonce = nonce, encryptedContent = enc, content = opt_content opts,
                 hash = crypto_generichash sod HASH_SIZE
                          (ChannelMessage_encode cod i (opt_parents opts) (opt_height opts) nonce enc)
                          None\<rparr>)))"

text \<open>
  Modelled from the spec: the JavaScript \<open>Identity\<close> class is not among the
  sources. An identity holds a key pair and, per channel id, the chain that makes
  it a member. \<open>sign_message_body\<close> "constructs the \<open>Content\<close> including this
  identity's chain for the channel, signs the TBS under \<open>secret_key\<close>. Fails with
  \<open>NoChain\<close> if no chain exists; fails with \<open>BodyTooLarge\<close> if the body's JSON
  exceeds the per-chain-length limit".
\<close>

record identity =
  identity_name :: string
  identity_publicKey :: bytes
  identity_secretKey :: bytes
  channel_chains :: "bytes \<rightharpoonup> link list"

definition signMessageBody ::
  "sodium \<Rightarrow> codec \<Rightarrow> identity \<Rightarrow> body \<Rightarrow> channel \<Rightarrow> bytes list \<Rightarrow> int \<Rightarrow> number
     \<Rightarrow> error + content" where
  "signMessageBody sod cod ident b chan ps h ts =
     (case channel_chains ident (chan_id chan) of
        None \<Rightarrow> Inl (Error ''NoChain'')
      | Some links \<Rightarrow>
         (case checkJSONLimit (body_json b) (length links) of
            Inl e \<Rightarrow> Inl (Error ''BodyTooLarge'')
          | Inr u \<Rightarrow>
             Inr \<lparr>chain = links, timestamp = ts, body = b,
                  signature = crypto_sign_detached sod
                                (Content_TBS_encode cod links ts b ps h)
                                (identity_secretKey ident)\<rparr>))"

text \<open>
  \<open>Channel.post\<close>. \<open>ts\<close> is the \<open>timestamp\<close> option, \<open>now()\<close> by default, any
  number when the caller gives one. A leaf
  that the storage cannot resolve is \<open>undefined\<close> in the array, and reading its
  \<open>timestamp\<close> is a \<open>TypeError\<close>.
\<close>

definition post ::
  "sodium \<Rightarrow> codec \<Rightarrow> channel \<Rightarrow> (nat \<Rightarrow> char) \<Rightarrow> body \<Rightarrow> identity \<Rightarrow> number \<Rightarrow> channel_data
     \<Rightarrow> (error + content message) \<times> channel_data" where
  "post sod cod chan rnd b ident ts d =
     (if b = Root then (Inl (Error ''Posting root is not allowed''), d)
      else
        (case those (Channel_getLeaves d) of
           None \<Rightarrow> (Inl (Error ''TypeError''), d)
         | Some lvs \<Rightarrow>
            (let ps = filterParents lvs in
             if length ps = 0 then
               (if Channel_getMessageCount d = 0
                  then (Inl (Error ''Initial synchronization not complete''), d)
                else (Inl (Error ''Internal error: no leaves''), d))
             else
               (let h = computeHeight ps;
                    t = adjustTimestamp ps ts;
                    parentHashes = map hash ps
                in case signMessageBody sod cod ident b chan parentHashes h t of
                     Inl e \<Rightarrow> (Inl e, d)
                   | Inr c \<Rightarrow>
                      (case checkJSONLimit (body_json b) (length (chain c)) of
                         Inl e \<Rightarrow> (Inl e, d)
                       | Inr u \<Rightarrow>
                          (case Message_new sod cod rnd
                                  \<lparr>opt_channel = Some chan, opt_channelId = None,
                                   opt_parents = parentHashes, opt_height = h,
                                   opt_nonce = None, opt_content = Some c,
                                   opt_encryptedContent = None\<rparr> of
                             Inl e \<Rightarrow> (Inl e, d)
                           | Inr m \<Rightarrow>
                              (Inr (decrypted m c), Memory_addMessage (decrypted m c) d)))))))"

text \<open>\<open>Channel.encrypt\<close> returns \<open>{ nonce, box }\<close>; \<open>Channel.decrypt\<close> its inverse.\<close>

definition Channel_encrypt :: "sodium \<Rightarrow> channel \<Rightarrow> (nat \<Rightarrow> char) \<Rightarrow> bytes \<Rightarrow> bytes \<times> bytes" where
  "Channel_encrypt sod chan rnd data =
     (let nonce = map rnd [0..<crypto_secretbox_NONCEBYTES sod];
          box = crypto_secretbox_easy sod data nonce (encryptionKey chan)
      in (nonce, box))"

definition Channel_decrypt :: "sodium \<Rightarrow> channel \<Rightarrow> bytes \<Rightarrow> bytes \<Rightarrow> error + bytes" where
  "Channel_decrypt sod chan box nonce' =
     (if length nonce' \<noteq> crypto_secretbox_NONCEBYTES sod then Inl (BanError ''Invalid nonce'')
      else if length box \<le> crypto_secretbox_MACBYTES sod
        then Inl (BanError ''Invalid encrypted box'')
      else
        (case crypto_secretbox_open_easy sod box nonce' (encryptionKey chan) of
           None \<Rightarrow> Inl (BanError ''Invalid encrypted box'')
         | Some data \<Rightarrow> Inr data))"

text \<open>
  \<open>Channel.receiveBulk\<close>. The remote is an object with a \<open>bulk\<close> method; it is
  modelled by its state \<open>r\<close> and the function \<open>rbulk\<close> that answers one request
  and gives the next state. \<open>expected\<close> is the set built from the hashes asked
  for at the start.
\<close>

record bulk_response =
  response_messages :: "content option message list"
  response_forwardIndex :: int

text \<open>The \<open>for\<close> loop over the messages of one response.\<close>

fun receive_each ::
  "sodium \<Rightarrow> codec \<Rightarrow> channel \<Rightarrow> real \<Rightarrow> bytes list \<Rightarrow> content option message list \<Rightarrow> nat
     \<Rightarrow> channel_data \<Rightarrow> (error + nat) \<times> channel_data" where
  "receive_each sod cod chan now expected [] delta d = (Inr delta, d)"
| "receive_each sod cod chan now expected (m # ms) delta d =
     (if hash m \<notin> set expected
        then (Inl (BanError ''Unexpected message in bulk response''), d)
      else
        (case receive sod cod chan now m d of
           (Inl e, d') \<Rightarrow> (Inl e, d')
         | (Inr b, d') \<Rightarrow>
            receive_each sod cod chan now expected ms (if b then delta + 1 else delta) d'))"

function receiveBulk_loop ::
  "sodium \<Rightarrow> codec \<Rightarrow> channel \<Rightarrow> real \<Rightarrow> ('r \<Rightarrow> bytes list \<Rightarrow> (error + bulk_response) \<times> 'r)
     \<Rightarrow> bytes list \<Rightarrow> bytes list \<Rightarrow> nat \<Rightarrow> 'r \<Rightarrow> channel_data
     \<Rightarrow> (error + nat) \<times> 'r \<times> channel_data" where
  "receiveBulk_loop sod cod chan now rbulk expected hashes delta r d =
     (if hashes = [] then (Inr delta, r, d)
      else
        (case rbulk r hashes of
           (Inl e, r') \<Rightarrow> (Inl e, r', d)
         | (Inr resp, r') \<Rightarrow>
            if response_forwardIndex resp \<le> 0
              then (Inl (BanError ''Failed to make progress''), r', d)
            else
              (case receive_each sod cod chan now expected (response_messages resp) delta d of
                 (Inl e, d') \<Rightarrow> (Inl e, r', d')
               | (Inr delta', d') \<Rightarrow>
                  receiveBulk_loop sod cod chan now rbulk expected
                    (drop (nat (response_forwardIndex resp)) hashes) delta' r' d')))"
  by pat_completeness auto
termination
  by (relation "measure (\<lambda>(sod, cod, chan, now, rbulk, expected, hashes, delta, r, d). length hashes)")
     auto

definition receiveBulk ::
  "sodium \<Rightarrow> codec \<Rightarrow> channel \<Rightarrow> real \<Rightarrow> ('r \<Rightarrow> bytes list \<Rightarrow> (error + bulk_response) \<times> 'r)
     \<Rightarrow> bytes list \<Rightarrow> 'r \<Rightarrow> channel_data \<Rightarrow> (error + nat) \<times> 'r \<times> channel_data" where
  "receiveBulk sod cod chan now rbulk hashes r d =
     receiveBulk_loop sod cod chan now rbulk hashes hashes 0 r d"

section \<open>SyncAgent\<close>

text \<open>
  \<open>SyncAgent.synchronize\<close> is an \<open>async\<close> function with one suspension point,
  \<open>await this.channel.sync(this)\<close>. The scheduler is single-threaded, so the code
  before the \<open>await\<close> and the code after it each run as one step. \<open>running\<close>
  counts the calls of \<open>channel.sync\<close> that have not settled yet, \<open>started\<close> all the
  calls of \<open>channel.sync\<close> made so far.
\<close>

datatype agent_state = Idle | Active | Pending

record sync_agent =
  state :: agent_state
  destroyed :: bool
  running :: nat
  started :: nat

definition new_agent :: sync_agent where
  "new_agent = \<lparr>state = Idle, destroyed = False, running = 0, started = 0\<rparr>"

definition call_sync :: "sync_agent \<Rightarrow> sync_agent" where
  "call_sync a = a\<lparr>running := running a + 1, started := started a + 1\<rparr>"

text \<open>\<open>synchronize()\<close> from its entry to the \<open>await\<close>.\<close>

definition synchronize :: "sync_agent \<Rightarrow> sync_agent" where
  "synchronize a =
     (if destroyed a then a
      else if state a = Idle then call_sync (a\<lparr>state := Active\<rparr>)
      else if state a = Active then call_sync (a\<lparr>state := Pending\<rparr>)
      else a)"

text \<open>
  The rest of \<open>synchronize()\<close>, run when the awaited \<open>channel.sync\<close> resolves: the
  nested \<open>this.synchronize()\<close> runs to its own \<open>await\<close> within the same step.
\<close>

definition sync_resolved :: "sync_agent \<Rightarrow> sync_agent" where
  "sync_resolved a =
     (let isPending = (state a = Pending);
          a' = a\<lparr>state := Idle, running := running a - 1\<rparr>
      in if isPending then synchronize a' else a')"

text \<open>When the awaited \<open>channel.sync\<close> rejects, the exception leaves \<open>synchronize()\<close>.\<close>

definition sync_rejected :: "sync_agent \<Rightarrow> sync_agent" where
  "sync_rejected a = a\<lparr>running := running a - 1\<rparr>"

datatype agent_event = Synchronize | SyncResolved | SyncRejected | Destroy

text \<open>A run settles only if there is one: with \<open>running = 0\<close> the event cannot occur.\<close>

fun agent_step :: "sync_agent \<Rightarrow> agent_event \<Rightarrow> sync_agent" where
  "agent_step a Synchronize = synchronize a"
| "agent_step a SyncResolved = (if running a = 0 then a else sync_resolved a)"
| "agent_step a SyncRejected = (if running a = 0 then a else sync_rejected a)"
| "agent_step a Destroy = a\<lparr>destroyed := True\<rparr>"

definition agent_run :: "agent_event list \<Rightarrow> sync_agent \<Rightarrow> sync_agent" where
  "agent_run evs a = foldl agent_step a evs"

section \<open>A concrete instance\<close>

text \<open>
  A small instance of the two interfaces, and a channel with a few messages, on
  which the operations can be evaluated. A signature is the signing key followed
  by the signed bytes (public and secret key coincide), a secret box is a
  16 byte tag followed by the clear text, a hash is the start of the key and the
  input.
\<close>

definition test_mac :: "bytes \<Rightarrow> bytes \<Rightarrow> bytes" where
  "test_mac n key = take 16 (key @ n @ replicate 16 CHR ''#'')"

definition test_sodium :: sodium where
  "test_sodium =
     \<lparr>crypto_secretbox_NONCEBYTES = 24, crypto_secretbox_MACBYTES = 16,
      crypto_secretbox_KEYBYTES = 32, crypto_sign_BYTES = 64, crypto_sign_PUBLICKEYBYTES = 32,
      crypto_secretbox_easy = (\<lambda>data n key. test_mac n key @ data),
      crypto_secretbox_open_easy =
        (\<lambda>box n key. if take 16 box = test_mac n key then Some (drop 16 box) else None),
      crypto_sign_detached = (\<lambda>msg sk. sk @ msg),
      crypto_sign_verify_detached = (\<lambda>sg msg pk. sg = pk @ msg),
      crypto_generichash =
        (\<lambda>n input key.
           take n ((case key of None \<Rightarrow> [] | Some k \<Rightarrow> k) @ input @ replicate n CHR ''0''))\<rparr>"

text \<open>
  The codec of the instance writes a number as the decimal digits of its whole
  part, a height in unary, and a chain as the display names of its links.
\<close>

function decimal :: "nat \<Rightarrow> string" where
  "decimal n =
     (if n < 10 then [''0123456789'' ! n]
      else decimal (n div 10) @ [''0123456789'' ! (n mod 10)])"
  by pat_completeness auto
termination
  by (relation "measure (\<lambda>n. n)") auto

declare decimal.simps [simp del]

fun test_number :: "number \<Rightarrow> string" where
  "test_number NaN = ''NaN''"
| "test_number (Num r) =
     (if r < 0 then CHR ''-'' # decimal (nat \<lfloor>- r\<rfloor>) else decimal (nat \<lfloor>r\<rfloor>))"

definition test_tbs :: "link list \<Rightarrow> number \<Rightarrow> body \<Rightarrow> bytes list \<Rightarrow> int \<Rightarrow> bytes" where
  "test_tbs links ts b ps h =
     replicate (nat h) CHR ''h'' @ test_number ts @ body_json b @ concat ps"

definition test_content_encode :: "content \<Rightarrow> bytes" where
  "test_content_encode c =
     concat (map trusteeDisplayName (chain c)) @ signature c @ body_json (body c)"

definition chanA :: channel where
  "chanA =
     \<lparr>name = ''a'', publicKey = ''KA'', chan_id = ''peerlinks-channel-idKA0000000000'',
      encryptionKey = ''peerlinks-symmetricKA00000000000'', isFeed = False,
      maxQueryLimit = MAX_QUERY_LIMIT, maxUnresolvedCount = MAX_UNRESOLVED_COUNT,
      maxBulkCount = MAX_BULK_COUNT\<rparr>"

text \<open>
  The hashes that the constructor computes, over the instance, for the messages
  below, and a hash that belongs to no message.
\<close>

definition hash_root1 :: bytes where "hash_root1 = ''peerlinks-symmetKA10rrrrrrrrrrrr''"
definition hash_root2 :: bytes where "hash_root2 = ''peerlinks-symmetKA11rrrrrrrrrrrr''"
definition hash_child :: bytes where "hash_child = ''peerlinks-symmetKAh12{}peerlinks''"
definition hash_tall :: bytes where "hash_tall = ''peerlinks-symmetKAhhhhh12{}peerl''"
definition hash_future :: bytes where "hash_future = ''peerlinks-symmetKAh150{}peerlink''"
definition hash_past :: bytes where "hash_past = ''peerlinks-symmetKAh5{}peerlinks-''"
definition hash_old :: bytes where "hash_old = ''peerlinks-symmetKA-3000000rrrrrr''"
definition hash_grand :: bytes where "hash_grand = ''peerlinks-symmetKAhh13{}peerlink''"
definition hash_late :: bytes where "hash_late = ''peerlinks-symmetKAh3000000{}peer''"
definition hash_nan :: bytes where "hash_nan = ''peerlinks-symmetKAhNaN{}peerlink''"
definition hash_long :: bytes where "hash_long = ''peerlinks-symmetbbbbKAh14{}peerl''"
definition hash_long_tall :: bytes where
  "hash_long_tall = ''peerlinks-symmetbbbbKAhhhhh14{}p''"
definition hash_long_future :: bytes where
  "hash_long_future = ''peerlinks-symmetbbbbKAh150{}peer''"
definition hash_other :: bytes where "hash_other = ''other---------------------------''"

text \<open>The content of a message signed with the key \<open>sk\<close>, over the codec of the instance.\<close>

definition signed_content ::
  "bytes \<Rightarrow> link list \<Rightarrow> number \<Rightarrow> body \<Rightarrow> bytes list \<Rightarrow> int \<Rightarrow> content" where
  "signed_content sk links ts b ps h =
     \<lparr>chain = links, timestamp = ts, body = b,
      signature = crypto_sign_detached test_sodium (test_tbs links ts b ps h) sk\<rparr>"

text \<open>
  A message of \<open>chanA\<close> as the constructor builds it from the content \<open>c0\<close>: the
  nonce drawn from \<open>test_rnd\<close>, the content sealed under the key of the channel.
  \<open>c\<close> is the \<open>content\<close> field, \<open>hsh\<close> the hash.
\<close>

definition test_message :: "bytes \<Rightarrow> bytes list \<Rightarrow> int \<Rightarrow> content \<Rightarrow> 'c \<Rightarrow> 'c message" where
  "test_message hsh ps h c0 c =
     \<lparr>channelId = chan_id chanA, parents = ps, height = h,
      nonce = replicate 24 CHR ''r'',
      encryptedContent =
        test_mac (replicate 24 CHR ''r'') (encryptionKey chanA) @ test_content_encode c0,
      content = c, hash = hsh\<rparr>"

text \<open>The options from which the constructor builds such a message.\<close>

definition test_options :: "bytes list \<Rightarrow> int \<Rightarrow> content \<Rightarrow> message_options" where
  "test_options ps h c0 =
     \<lparr>opt_channel = Some chanA, opt_channelId = None, opt_parents = ps, opt_height = h,
      opt_nonce = None, opt_content = Some c0, opt_encryptedContent = None\<rparr>"

text \<open>
  A message as it comes from the wire, where \<open>Message.deserialize\<close> builds it from
  the fields of \<open>serialize\<close>: the content is there in its encrypted form only.
\<close>

definition wire :: "'c message \<Rightarrow> content option message" where
  "wire m =
     \<lparr>channelId = channelId m, parents = parents m, height = height m, nonce = nonce m,
      encryptedContent = encryptedContent m, content = None, hash = hash m\<rparr>"

definition wire_options :: "'c message \<Rightarrow> message_options" where
  "wire_options m =
     \<lparr>opt_channel = None, opt_channelId = Some (channelId m), opt_parents = parents m,
      opt_height = height m, opt_nonce = Some (nonce m), opt_content = None,
      opt_encryptedContent = Some (encryptedContent m)\<rparr>"

text \<open>Two root messages and a child of the first, all signed by the channel key.\<close>

definition content_root1 :: content where
  "content_root1 = signed_content ''KA'' [] (Num 10) Root [] 0"

definition content_root2 :: content where
  "content_root2 = signed_content ''KA'' [] (Num 11) Root [] 0"

definition content_child :: content where
  "content_child = signed_content ''KA'' [] (Num 12) (Json ''{}'') [hash_root1] 1"

definition msg_root1 :: "content option message" where
  "msg_root1 = test_message hash_root1 [] 0 content_root1 (Some content_root1)"

definition msg_root2 :: "content option message" where
  "msg_root2 = test_message hash_root2 [] 0 content_root2 (Some content_root2)"

definition msg_child :: "content option message" where
  "msg_child = test_message hash_child [hash_root1] 1 content_child (Some content_child)"

text \<open>
  The same messages as they sit in the storage, and the storage after \<open>msg_root1\<close>,
  and after \<open>msg_root1\<close> and \<open>msg_child\<close>.
\<close>

definition stored_root1 :: "content message" where
  "stored_root1 = test_message hash_root1 [] 0 content_root1 content_root1"

definition stored_child :: "content message" where
  "stored_child = test_message hash_child [hash_root1] 1 content_child content_child"

definition store1 :: channel_data where
  "store1 =
     \<lparr>messages = [stored_root1],
      messageByHash = [hash_root1 \<mapsto> stored_root1],
      leaves = [hash_root1]\<rparr>"

definition store2 :: channel_data where
  "store2 =
     \<lparr>messages = [stored_root1,
                  stored_child],
      messageByHash = [hash_root1 \<mapsto> stored_root1,
                       hash_child \<mapsto> stored_child],
      leaves = [hash_child]\<rparr>"

definition content_tall :: content where
  "content_tall = signed_content ''KA'' [] (Num 12) (Json ''{}'') [hash_root1] 5"

definition msg_tall :: "content option message" where
  "msg_tall = test_message hash_tall [hash_root1] 5 content_tall (Some content_tall)"

text \<open>Children of the first root with a timestamp too far ahead, and one before it.\<close>

definition content_future :: content where
  "content_future = signed_content ''KA'' [] (Num 150) (Json ''{}'') [hash_root1] 1"

definition msg_future :: "content option message" where
  "msg_future = test_message hash_future [hash_root1] 1 content_future (Some content_future)"

definition content_past :: content where
  "content_past = signed_content ''KA'' [] (Num 5) (Json ''{}'') [hash_root1] 1"

definition msg_past :: "content option message" where
  "msg_past = test_message hash_past [hash_root1] 1 content_past (Some content_past)"

text \<open>
  A child of the first root whose timestamp is \<open>NaN\<close>, and the storage after
  \<open>msg_root1\<close> and this message.
\<close>

definition content_nan :: content where
  "content_nan = signed_content ''KA'' [] NaN (Json ''{}'') [hash_root1] 1"

definition msg_nan :: "content option message" where
  "msg_nan = test_message hash_nan [hash_root1] 1 content_nan (Some content_nan)"

definition stored_nan :: "content message" where
  "stored_nan = test_message hash_nan [hash_root1] 1 content_nan content_nan"

definition store_nan :: channel_data where
  "store_nan =
     \<lparr>messages = [stored_root1, stored_nan],
      messageByHash = [hash_root1 \<mapsto> stored_root1, hash_nan \<mapsto> stored_nan],
      leaves = [hash_nan]\<rparr>"

text \<open>
  A child of \<open>msg_child\<close>, and a second child of the first root that is more than
  30 days younger; the storage after the four messages.
\<close>

definition content_grand :: content where
  "content_grand = signed_content ''KA'' [] (Num 13) (Json ''{}'') [hash_child] 2"

definition msg_grand :: "content option message" where
  "msg_grand = test_message hash_grand [hash_child] 2 content_grand (Some content_grand)"

definition stored_grand :: "content message" where
  "stored_grand = test_message hash_grand [hash_child] 2 content_grand content_grand"

definition content_late :: content where
  "content_late = signed_content ''KA'' [] (Num 3000000) (Json ''{}'') [hash_root1] 1"

definition msg_late :: "content option message" where
  "msg_late = test_message hash_late [hash_root1] 1 content_late (Some content_late)"

definition stored_late :: "content message" where
  "stored_late = test_message hash_late [hash_root1] 1 content_late content_late"

definition store3 :: channel_data where
  "store3 =
     \<lparr>messages = [stored_root1, stored_child, stored_late, stored_grand],
      messageByHash = [hash_root1 \<mapsto> stored_root1, hash_child \<mapsto> stored_child,
                       hash_grand \<mapsto> stored_grand, hash_late \<mapsto> stored_late],
      leaves = [hash_grand, hash_late]\<rparr>"

text \<open>
  Children of the first root whose chain has four well-formed links, one more
  than \<open>MAX_LENGTH\<close>: one with the height and a timestamp that \<open>receive\<close> expects,
  one with another height, one with a timestamp too far ahead.
\<close>

definition test_link :: link where
  "test_link =
     \<lparr>validFrom = Num 0, validTo = Num 100, trusteePubKey = replicate 32 CHR ''k'',
      trusteeDisplayName = ''b'', linkSignature = replicate 64 CHR ''s''\<rparr>"

definition content_long :: content where
  "content_long =
     signed_content ''KA'' [test_link, test_link, test_link, test_link] (Num 14) (Json ''{}'')
       [hash_root1] 1"

definition msg_long :: "content option message" where
  "msg_long = test_message hash_long [hash_root1] 1 content_long (Some content_long)"

definition content_long_tall :: content where
  "content_long_tall =
     signed_content ''KA'' [test_link, test_link, test_link, test_link] (Num 14) (Json ''{}'')
       [hash_root1] 5"

definition msg_long_tall :: "content option message" where
  "msg_long_tall =
     test_message hash_long_tall [hash_root1] 5 content_long_tall (Some content_long_tall)"

definition content_long_future :: content where
  "content_long_future =
     signed_content ''KA'' [test_link, test_link, test_link, test_link] (Num 150) (Json ''{}'')
       [hash_root1] 1"

definition msg_long_future :: "content option message" where
  "msg_long_future =
     test_message hash_long_future [hash_root1] 1 content_long_future
       (Some content_long_future)"

text \<open>
  A child of the first root with a chain of one link that the channel key has
  not signed.
\<close>

definition hash_broken :: bytes where "hash_broken = ''peerlinks-symmetbKAh12{}peerlink''"

definition content_broken :: content where
  "content_broken = signed_content ''KA'' [test_link] (Num 12) (Json ''{}'') [hash_root1] 1"

definition msg_broken :: "content option message" where
  "msg_broken = test_message hash_broken [hash_root1] 1 content_broken (Some content_broken)"

text \<open>
  The codec of the instance. \<open>Content.decode\<close> inverts \<open>Content.encode\<close> on the
  contents of the messages above.
\<close>

definition test_contents :: "content list" where
  "test_contents =
     [content_root1, content_root2, content_child, content_tall, content_future, content_past,
      content_nan, content_grand, content_late, content_long, content_long_tall,
      content_long_future, content_broken]"

definition test_codec :: codec where
  "test_codec =
     \<lparr>Content_encode = test_content_encode,
      Content_decode = (\<lambda>b. find (\<lambda>c. test_content_encode c = b) test_contents),
      Content_TBS_encode = test_tbs,
      Link_TBS_encode = (\<lambda>pk vf vt nm cid. pk @ nm @ cid),
      ChannelMessage_encode = (\<lambda>cid ps h n enc. enc @ concat ps @ n @ cid),
      JSON_parse = (\<lambda>j. j \<noteq> [])\<rparr>"

text \<open>The bytes drawn for a nonce in the concrete instance.\<close>

definition test_rnd :: "nat \<Rightarrow> char" where
  "test_rnd i = CHR ''r''"

text \<open>
  What \<open>Channel.encrypt\<close> and \<open>Channel.decrypt\<close> need of the secret box of the
  library: opening a box with the nonce and key that made it gives the clear
  text back, and a box is \<open>crypto_secretbox_MACBYTES\<close> longer than its clear text
  (the size of the buffer that \<open>encrypt\<close> allocates for it).
\<close>

definition secretbox_ok :: "sodium \<Rightarrow> bool" where
  "secretbox_ok sod \<longleftrightarrow>
     (\<forall>data n key.
        crypto_secretbox_open_easy sod (crypto_secretbox_easy sod data n key) n key = Some data \<and>
        length (crypto_secretbox_easy sod data n key) = length data + crypto_secretbox_MACBYTES sod)"

text \<open>
  The identity of the channel's creator, whose chain for the channel is empty, and
  a storage whose only message is older than \<open>MAX_PARENT_DELTA\<close> before time 0
  (\<open>receive\<close> refuses a message with a negative timestamp, so it is not one that
  \<open>receive\<close> builds).
\<close>

definition identA :: identity where
  "identA =
     \<lparr>identity_name = ''a'', identity_publicKey = ''KA'', identity_secretKey = ''KA'',
      channel_chains = [chan_id chanA \<mapsto> []]\<rparr>"

definition content_old :: content where
  "content_old = signed_content ''KA'' [] (Num (- 3000000)) Root [] 0"

definition stored_old :: "content message" where
  "stored_old = test_message hash_old [] 0 content_old content_old"

definition store_old :: channel_data where
  "store_old =
     \<lparr>messages = [stored_old],
      messageByHash = [hash_old \<mapsto> stored_old],
      leaves = [hash_old]\<rparr>"

text \<open>
  The message that \<open>identA\<close> posts at time 15 on the storage that holds \<open>msg_root1\<close>
  and \<open>msg_child\<close>, and the storage after it.
\<close>

definition hash_posted :: bytes where "hash_posted = ''peerlinks-symmetKAhh15{}peerlink''"

definition content_posted :: content where
  "content_posted = signed_content ''KA'' [] (Num 15) (Json ''{}'') [hash_child] 2"

definition stored_posted :: "content message" where
  "stored_posted = test_message hash_posted [hash_child] 2 content_posted content_posted"

definition store4 :: channel_data where
  "store4 =
     \<lparr>messages = [stored_root1, stored_child, stored_posted],
      messageByHash = [hash_root1 \<mapsto> stored_root1, hash_child \<mapsto> stored_child,
                       hash_posted \<mapsto> stored_posted],
      leaves = [hash_posted]\<rparr>"

text \<open>
  A remote that answers its requests with the responses of a list, one after the
  other, and stays silent when the list is used up; \<open>SyncAgent.bulk\<close> turns the
  timeout into \<open>{ messages: [], forwardIndex: 0 }\<close>.
\<close>

fun list_remote ::
  "bulk_response list \<Rightarrow> bytes list \<Rightarrow> (error + bulk_response) \<times> bulk_response list" where
  "list_remote [] hashes = (Inr \<lparr>response_messages = [], response_forwardIndex = 0\<rparr>, [])"
| "list_remote (resp # rest) hashes = (Inr resp, rest)"

section \<open>Invariants of the storage\<close>

text \<open>Every stored message has a height of at least 0, as the constructor demands.\<close>

definition heights_ok :: "channel_data \<Rightarrow> bool" where
  "heights_ok d \<longleftrightarrow> (\<forall>p\<in>ran (messageByHash d). 0 \<le> height p)"

text \<open>\<open>messageByHash\<close> holds each message under its own hash.\<close>

definition keys_ok :: "channel_data \<Rightarrow> bool" where
  "keys_ok d \<longleftrightarrow> (\<forall>h m. messageByHash d h = Some m \<longrightarrow> hash m = h)"

text \<open>The parents of every stored message are stored.\<close>

definition parents_stored :: "channel_data \<Rightarrow> bool" where
  "parents_stored d \<longleftrightarrow> (\<forall>m\<in>ran (messageByHash d). set (parents m) \<subseteq> dom (messageByHash d))"

text \<open>
  The leaves are the hashes of the stored messages that are not a parent of any
  stored message.
\<close>

definition leaves_closure :: "channel_data \<Rightarrow> bool" where
  "leaves_closure d \<longleftrightarrow>
     set (leaves d) =
       hash ` ran (messageByHash d) - \<Union> (set ` parents ` ran (messageByHash d))"

definition storage_inv :: "channel_data \<Rightarrow> bool" where
  "storage_inv d \<longleftrightarrow> keys_ok d \<and> parents_stored d \<and> leaves_closure d"

text \<open>
  The calls that change the storage of a channel, and a sequence of them run one
  after the other; a call that throws leaves the storage it returns with.
\<close>

datatype channel_op =
    Receive real "content option message"
  | Post "nat \<Rightarrow> char" body identity number

fun apply_op :: "sodium \<Rightarrow> codec \<Rightarrow> channel \<Rightarrow> channel_data \<Rightarrow> channel_op \<Rightarrow> channel_data" where
  "apply_op sod cod chan d (Receive now m) = snd (receive sod cod chan now m d)"
| "apply_op sod cod chan d (Post rnd b ident ts) = snd (post sod cod chan rnd b ident ts d)"

definition run_ops ::
  "sodium \<Rightarrow> codec \<Rightarrow> channel \<Rightarrow> channel_op list \<Rightarrow> channel_data \<Rightarrow> channel_data" where
  "run_ops sod cod chan ops d = foldl (apply_op sod cod chan) d ops"

text \<open>
  The messages that a call accepts, each in the abbreviated form \<open>{ hash, parents }\<close>
  of the synchronization protocol: the message for which \<open>receive\<close> returns \<open>true\<close>,
  the message that \<open>post\<close> returns. \<open>accepted_run\<close> collects them over a sequence
  of calls.
\<close>

type_synonym abbreviated = "bytes \<times> bytes list"

definition abbreviate :: "'c message \<Rightarrow> abbreviated" where
  "abbreviate m = (hash m, parents m)"

fun accepted_op ::
  "sodium \<Rightarrow> codec \<Rightarrow> channel \<Rightarrow> channel_data \<Rightarrow> channel_op \<Rightarrow> abbreviated list" where
  "accepted_op sod cod chan d (Receive now m) =
     (if fst (receive sod cod chan now m d) = Inr True then [abbreviate m] else [])"
| "accepted_op sod cod chan d (Post rnd b ident ts) =
     (case fst (post sod cod chan rnd b ident ts d) of
        Inl e \<Rightarrow> []
      | Inr m \<Rightarrow> [abbreviate m])"

fun accepted_run ::
  "sodium \<Rightarrow> codec \<Rightarrow> channel \<Rightarrow> channel_op list \<Rightarrow> channel_data \<Rightarrow> abbreviated list" where
  "accepted_run sod cod chan [] d = []"
| "accepted_run sod cod chan (op # ops) d =
     accepted_op sod cod chan d op @ accepted_run sod cod chan ops (apply_op sod cod chan d op)"

text \<open>
  \<open>receive\<close> looks the hash of a message up before it stores it; \<open>post\<close> hands its
  new message to \<open>addMessage\<close> without that, and \<open>addMessage\<close> drops a message
  whose hash is stored. \<open>fresh_posts\<close> says that this does not happen in a
  sequence of calls: the hash of each message that \<open>post\<close> returns is new to the
  storage, as it is unless two nonces or two hashes collide.
\<close>

fun fresh_post :: "sodium \<Rightarrow> codec \<Rightarrow> channel \<Rightarrow> channel_data \<Rightarrow> channel_op \<Rightarrow> bool" where
  "fresh_post sod cod chan d (Receive now m) = True"
| "fresh_post sod cod chan d (Post rnd b ident ts) =
     (case fst (post sod cod chan rnd b ident ts d) of
        Inl e \<Rightarrow> True
      | Inr m \<Rightarrow> \<not> Memory_hasMessage d (hash m))"

fun fresh_posts ::
  "sodium \<Rightarrow> codec \<Rightarrow> channel \<Rightarrow> channel_op list \<Rightarrow> channel_data \<Rightarrow> bool" where
  "fresh_posts sod cod chan [] d = True"
| "fresh_posts sod cod chan (op # ops) d =
     (fresh_post sod cod chan d op \<and> fresh_posts sod cod chan ops (apply_op sod cod chan d op))"

text \<open>The array \<open>messages\<close> and the map \<open>messageByHash\<close> hold the same messages.\<close>

definition messages_ok :: "channel_data \<Rightarrow> bool" where
  "messages_ok d \<longleftrightarrow> set (messages d) = ran (messageByHash d)"

definition store_ok :: "channel_data \<Rightarrow> bool" where
  "store_ok d \<longleftrightarrow> heights_ok d \<and> storage_inv d \<and> messages_ok d"

text \<open>Three calls on the instance: two messages from the wire, then a post.\<close>

definition test_ops :: "channel_op list" where
  "test_ops =
     [Receive 20 msg_root1, Receive 20 (wire msg_child),
      Post test_rnd (Json ''{}'') identA (Num 15)]"

section \<open>The messages of the concrete instance\<close>

text \<open>The messages of the instance are what the constructor builds.\<close>

lemma constructed_chanA: "Channel_new test_sodium ''a'' ''KA'' False = Inr chanA"
  by (simp add: Channel_new_def test_sodium_def chanA_def ID_SIZE_def ID_KEY_def ENC_KEY_def
      MAX_QUERY_LIMIT_def MAX_UNRESOLVED_COUNT_def MAX_BULK_COUNT_def)
     (simp add: eval_nat_numeral)

lemma test_nonce: "map test_rnd [0..<24] = replicate 24 CHR ''r''"
proof -
  have "map test_rnd xs = replicate (length xs) CHR ''r''" for xs
    by (induction xs) (simp_all add: test_rnd_def)
  from this[of "[0..<24]"] show ?thesis
    by simp
qed

lemma replicate_num: "replicate (numeral k) x = x # replicate (pred_numeral k) x"
  by (simp add: numeral_eq_Suc)

lemmas Message_new_defs = Message_new_def test_options_def checkId_def checkHash_def ID_SIZE_def
  HASH_SIZE_def Let_def test_message_def

lemmas codec_defs = test_codec_def test_content_encode_def test_tbs_def signed_content_def
  test_sodium_def test_mac_def decimal.simps replicate_num

lemma constructed_root1:
  "Message_new test_sodium test_codec test_rnd (test_options [] 0 content_root1) = Inr msg_root1"
  by (simp add: Message_new_defs test_sodium_def chanA_def test_nonce msg_root1_def)
     (simp add: codec_defs content_root1_def hash_root1_def)

lemma constructed_root2:
  "Message_new test_sodium test_codec test_rnd (test_options [] 0 content_root2) = Inr msg_root2"
  by (simp add: Message_new_defs test_sodium_def chanA_def test_nonce msg_root2_def hash_root1_def)
     (simp add: codec_defs content_root2_def hash_root2_def hash_root1_def)

lemma constructed_child:
  "Message_new test_sodium test_codec test_rnd (test_options [hash_root1] 1 content_child) = Inr msg_child"
  by (simp add: Message_new_defs test_sodium_def chanA_def test_nonce msg_child_def hash_root1_def)
     (simp add: codec_defs content_child_def hash_child_def hash_root1_def)

text \<open>
  \<open>Message.deserialize\<close> hands the constructor the fields of the wire format, and
  the constructor computes the hash from them again.
\<close>

lemma deserialized_child:
  "Message_new test_sodium test_codec test_rnd (wire_options msg_child) = Inr (wire msg_child)"
  by (simp add: Message_new_def wire_options_def wire_def msg_child_def checkId_def checkHash_def
      ID_SIZE_def HASH_SIZE_def Let_def test_message_def test_sodium_def chanA_def hash_root1_def)
     (simp add: codec_defs content_child_def hash_child_def hash_root1_def)

section \<open>Folding with a maximum\<close>

lemma foldl_max_eq_Max:
  "foldl (\<lambda>acc p. max acc ((f p)::'a::linorder)) a ps = Max (insert a (f ` set ps))"
proof (induction ps arbitrary: a)
  case Nil
  then show ?case by simp
next
  case (Cons x xs)
  have "Max (insert (max a (f x)) (f ` set xs)) = Max (insert a (insert (f x) (f ` set xs)))"
    by (cases "xs = []") (auto simp: max.assoc)
  with Cons show ?case by simp
qed

lemma foldl_max_ge_init: "(a::'a::linorder) \<le> foldl (\<lambda>acc p. max acc (f p)) a ps"
  unfolding foldl_max_eq_Max by simp

lemma foldl_max_ge_elem:
  "p \<in> set ps \<Longrightarrow> f p \<le> foldl (\<lambda>acc p. max acc ((f p)::'a::linorder)) a ps"
  unfolding foldl_max_eq_Max by simp

lemma computeHeight_Max:
  assumes "ps \<noteq> []" "\<forall>p\<in>set ps. 0 \<le> height p"
  shows "computeHeight ps = 1 + Max (height ` set ps)"
proof -
  have fin: "finite (height ` set ps)" "height ` set ps \<noteq> {}"
    using assms by auto
  have "computeHeight ps = Max (insert 0 ((\<lambda>p. height p + 1) ` set ps))"
    unfolding computeHeight_def by (rule foldl_max_eq_Max)
  also have "\<dots> = max 0 (Max ((\<lambda>p. height p + 1) ` set ps))"
    using assms by (subst Max_insert) auto
  also have "(\<lambda>p. height p + 1) ` set ps = (\<lambda>h. h + 1) ` (height ` set ps)"
    by auto
  also have "Max \<dots> = Max (height ` set ps) + 1"
    using fin by (simp add: mono_Max_commute[symmetric] mono_def)
  also have "max 0 (Max (height ` set ps) + 1) = 1 + Max (height ` set ps)"
  proof -
    obtain p where "p \<in> set ps"
      using assms by (cases ps) auto
    then have "0 \<le> height p" "height p \<le> Max (height ` set ps)"
      using assms by auto
    then show ?thesis by linarith
  qed
  finally show ?thesis .
qed

text \<open>\<open>Math.max\<close> over numbers: \<open>NaN\<close> once, \<open>NaN\<close> for good.\<close>

lemma Math_max_NaN_right: "Math_max a NaN = NaN"
  by (cases a) simp_all

lemma js_minus_NaN_left: "js_minus NaN b = NaN"
  by simp

lemma js_less_eq_Num_left: "js_less_eq (Num a) x \<longleftrightarrow> (\<exists>u. x = Num u \<and> a \<le> u)"
  by (cases x) simp_all

lemma js_less_Num_left: "js_less (Num a) x \<longleftrightarrow> (\<exists>u. x = Num u \<and> a < u)"
  by (cases x) simp_all

lemma js_less_Num_right: "js_less x (Num a) \<longleftrightarrow> (\<exists>u. x = Num u \<and> u < a)"
  by (cases x) simp_all

lemma foldl_Math_max_NaN: "foldl (\<lambda>acc p. Math_max acc (f p)) NaN ps = NaN"
  by (induction ps) simp_all

lemma foldl_Math_max_has_NaN:
  "\<exists>p\<in>set ps. f p = NaN \<Longrightarrow> foldl (\<lambda>acc p. Math_max acc (f p)) a ps = NaN"
proof (induction ps arbitrary: a)
  case Nil
  then show ?case by simp
next
  case (Cons x xs)
  show ?case
  proof (cases "f x = NaN")
    case True
    then show ?thesis
      by (simp add: Math_max_NaN_right foldl_Math_max_NaN)
  next
    case False
    with Cons.prems have "\<exists>p\<in>set xs. f p = NaN"
      by auto
    then show ?thesis
      using Cons.IH by simp
  qed
qed

lemma foldl_Math_max_Num:
  "map f ps = map Num us \<Longrightarrow>
     foldl (\<lambda>acc p. Math_max acc (f p)) (Num a) ps = Num (Max (insert a (set us)))"
proof (induction ps arbitrary: a us)
  case Nil
  then show ?case by simp
next
  case (Cons x xs)
  then obtain u us' where us: "us = u # us'" "f x = Num u" "map f xs = map Num us'"
    by (cases us) auto
  have "Max (insert (max a u) (set us')) = Max (insert a (insert u (set us')))"
    by (cases "us' = []") (auto simp: max.assoc)
  with Cons.IH[OF us(3), of "max a u"] us show ?case
    by simp
qed

lemma NaN_or_Num:
  "(\<exists>p\<in>set ps. f p = NaN) \<or> (\<exists>us. map f ps = map Num us)"
proof (induction ps)
  case Nil
  then show ?case by simp
next
  case (Cons x xs)
  show ?case
  proof (cases "f x")
    case NaN
    then show ?thesis by simp
  next
    case (Num u)
    from Cons.IH show ?thesis
    proof
      assume "\<exists>p\<in>set xs. f p = NaN"
      then show ?thesis by simp
    next
      assume "\<exists>us. map f xs = map Num us"
      then obtain us where "map f xs = map Num us"
        by blast
      with Num have "map f (x # xs) = map Num (u # us)"
        by simp
      then show ?thesis by blast
    qed
  qed
qed

section \<open>The filter of \<open>MAX_PARENT_DELTA\<close>\<close>

lemma computeMaxTimestamp_Num:
  "map (\<lambda>p. timestamp (content p)) ps = map Num us \<Longrightarrow>
     computeMaxTimestamp ps = Num (Max (insert 0 (set us)))"
  unfolding computeMaxTimestamp_def by (rule foldl_Math_max_Num)

lemma filterParents_NaN:
  assumes "\<exists>p\<in>set ps. timestamp (content p) = NaN"
  shows "filterParents ps = []"
proof -
  have "computeMaxTimestamp ps = NaN"
    unfolding computeMaxTimestamp_def using assms by (rule foldl_Math_max_has_NaN)
  then show ?thesis
    by (simp add: filterParents_def js_greater_eq_def)
qed

lemma filterParents_Num:
  assumes "map (\<lambda>p. timestamp (content p)) ps = map Num us"
  shows "filterParents ps =
           filter (\<lambda>p. \<exists>u. timestamp (content p) = Num u \<and>
                           Max (insert 0 (set us)) - 2592000 \<le> u) ps"
  by (simp add: filterParents_def computeMaxTimestamp_Num[OF assms] js_greater_eq_def
      js_less_eq_Num_left MAX_PARENT_DELTA_def)

lemma filterParents_all_kept:
  assumes "length (filterParents ps) = length ps"
  shows "\<exists>us. map (\<lambda>p. timestamp (content p)) ps = map Num us \<and>
              computeMaxTimestamp ps = Num (Max (insert 0 (set us)))"
proof -
  from NaN_or_Num[of ps "\<lambda>p. timestamp (content p)"]
  show ?thesis
  proof
    assume n: "\<exists>p\<in>set ps. timestamp (content p) = NaN"
    then have "filterParents ps = []"
      by (rule filterParents_NaN)
    with assms have "ps = []"
      by simp
    with n show ?thesis by simp
  next
    assume "\<exists>us. map (\<lambda>p. timestamp (content p)) ps = map Num us"
    then obtain us where "map (\<lambda>p. timestamp (content p)) ps = map Num us"
      by blast
    with computeMaxTimestamp_Num[OF this] show ?thesis
      by blast
  qed
qed

section \<open>Reading the storage\<close>

lemma those_map_Some:
  "those (map f hs) = Some ps \<Longrightarrow>
     ps = map (\<lambda>h. the (f h)) hs \<and> (\<forall>h\<in>set hs. f h \<noteq> None)"
  by (induction hs arbitrary: ps) (auto split: option.splits)

lemma those_stored:
  assumes "those (Channel_getMessages d hs) = Some ps" "p \<in> set ps"
  shows "p \<in> ran (messageByHash d)"
proof -
  from assms(1) have *: "ps = map (\<lambda>h. the (messageByHash d h)) hs"
    "\<forall>h\<in>set hs. messageByHash d h \<noteq> None"
    using those_map_Some[of "Memory_getMessage d" hs ps]
    by (auto simp: Channel_getMessages_def Memory_getMessages_def Memory_getMessage_def)
  with assms(2) obtain h where "h \<in> set hs" "p = the (messageByHash d h)"
    by auto
  with * show ?thesis by (auto simp: ran_def)
qed

lemma expected_height:
  assumes "heights_ok d"
    and "those (Channel_getMessages d hs) = Some ps"
  shows "computeHeight ps = (if ps = [] then 0 else 1 + Max (height ` set ps))"
proof (cases "ps = []")
  case True
  then show ?thesis by (simp add: computeHeight_def)
next
  case False
  have "\<forall>p\<in>set ps. 0 \<le> height p"
    using assms those_stored unfolding heights_ok_def by blast
  with False show ?thesis by (simp add: computeHeight_Max)
qed

section \<open>The checks of \<open>Channel.receive\<close>\<close>

lemma receive_accepted_cases:
  assumes "receive sod cod chan now m d = (Inr True, d')"
  obtains c ps where
    "\<not> Memory_hasMessage d (hash m)"
    "Message_verify sod cod chan now m = Inr (True, c)"
    "length (parents m) \<le> MAX_LEAVES_COUNT"
    "those (Channel_getMessages d (parents m)) = Some ps"
    "length (filterParents ps) = length ps"
    "height m = computeHeight ps"
    "\<not> js_greater (timestamp c) (Num (now + FUTURE))"
    "\<not> js_less (timestamp c) (computeMaxTimestamp ps)"
    "ps = [] \<longrightarrow> body c = Root"
    "ps \<noteq> [] \<longrightarrow> body c \<noteq> Root \<and> checkJSONLimit (body_json (body c)) (length (chain c)) = Inr ()"
    "d' = Memory_addMessage (decrypted m c) d"
  using assms unfolding receive_def
  by (auto split: if_splits sum.splits option.splits prod.splits)

lemma receive_error_unchanged:
  "fst (receive sod cod chan now m d) = Inl e \<Longrightarrow> snd (receive sod cod chan now m d) = d"
  unfolding receive_def
  by (auto split: if_splits sum.splits option.splits prod.splits)

lemma receive_ban_unchanged:
  assumes "isBanError (fst (receive sod cod chan now m d))"
  shows "snd (receive sod cod chan now m d) = d"
proof -
  from assms obtain e where "fst (receive sod cod chan now m d) = Inl e"
    by (cases "fst (receive sod cod chan now m d)") auto
  then show ?thesis by (rule receive_error_unchanged)
qed

lemma receive_verify_throws:
  "\<not> Memory_hasMessage d (hash m) \<Longrightarrow> Message_verify sod cod chan now m = Inl e \<Longrightarrow>
     receive sod cod chan now m d = (Inl e, d)"
  by (simp add: receive_def)

lemma map_throw_Link_new:
  "map_throw (Link_new sod) ls = Inr ls' \<Longrightarrow> ls' = ls"
  by (induction ls arbitrary: ls') (auto simp: Link_new_def split: if_splits sum.splits)

lemma verify_long_chain:
  assumes "Message_decrypt sod cod chan m = Inr c"
    and "map_throw (Link_new sod) (chain c) = Inr links"
    and "3 < length (chain c)"
  shows "Message_verify sod cod chan now m = Inl (Error ''Chain length overflow'')"
proof -
  from assms(2) have "links = chain c"
    by (rule map_throw_Link_new)
  with assms show ?thesis
    by (simp add: Message_verify_def Message_chain_def Chain_new_def MAX_LENGTH_def)
qed

text \<open>
  A chain with a link that does not verify: \<open>getLeafKey\<close> returns \<open>false\<close>, and the
  signature check throws a \<open>TypeError\<close> for that key.
\<close>

lemma verify_broken_chain:
  assumes "Message_decrypt sod cod chan m = Inr c"
    and "Message_chain sod c = Inr links"
    and "Chain_getLeafKey sod cod chan now links = None"
  shows "Message_verify sod cod chan now m = Inl (Error ''TypeError'')"
  using assms by (simp add: Message_verify_def)

lemma receive_height_mismatch:
  assumes "\<not> Memory_hasMessage d (hash m)"
    and "\<forall>r. Message_verify sod cod chan now m \<noteq> Inl (Error r)"
    and "those (Channel_getMessages d (parents m)) = Some ps"
    and "height m \<noteq> computeHeight ps"
  shows "isBanError (fst (receive sod cod chan now m d))"
proof (cases "Message_verify sod cod chan now m")
  case (Inl e)
  with assms(2) obtain r where "e = BanError r"
    by (cases e) auto
  with Inl assms(1) show ?thesis by (simp add: receive_def)
next
  case (Inr okc)
  obtain ok c where "okc = (ok, c)"
    by (cases okc)
  with Inr assms(1,3,4) show ?thesis by (simp add: receive_def)
qed

lemmas test_defs = test_sodium_def test_codec_def test_tbs_def chanA_def hash_root1_def
  hash_root2_def hash_child_def hash_other_def signed_content_def test_message_def
  content_root1_def content_root2_def content_child_def msg_root1_def
  msg_root2_def msg_child_def stored_root1_def stored_child_def store1_def
  store2_def decimal.simps replicate_num js_greater_def js_greater_eq_def

lemmas test_defs_tall = content_tall_def msg_tall_def hash_tall_def

lemmas const_defs = MAX_LEAVES_COUNT_def FUTURE_def MAX_PARENT_DELTA_def MAX_LENGTH_def
  MAX_BULK_COUNT_def HASH_SIZE_def ID_SIZE_def

lemmas receive_defs = receive_def Memory_hasMessage_def Message_verify_def Message_decrypt_def
  Message_chain_def Chain_new_def Chain_getLeafKey_def Message_tbs_def Channel_getMessages_def
  Memory_getMessages_def Memory_getMessage_def filterParents_def computeMaxTimestamp_def
  computeHeight_def checkJSONLimit_def jsonLimit_def Memory_addMessage_def decrypted_def
  Set_add_def Set_delete_def crdt_key_def

text \<open>What it takes to open and decode the messages of the instance that come from the wire.\<close>

lemmas wire_defs = wire_def test_mac_def test_content_encode_def test_contents_def
  content_tall_def content_future_def content_past_def content_nan_def content_grand_def
  content_late_def content_long_def content_long_tall_def content_long_future_def
  content_broken_def test_link_def Link_new_def MAX_DISPLAY_NAME_LENGTH_def

lemma constructed_broken:
  "Message_new test_sodium test_codec test_rnd (test_options [hash_root1] 1 content_broken)
     = Inr msg_broken"
  by (simp add: Message_new_defs test_sodium_def chanA_def test_nonce msg_broken_def
      hash_root1_def)
     (simp add: codec_defs content_broken_def hash_broken_def hash_root1_def test_link_def)

lemma receive_broken_chain:
  "receive test_sodium test_codec chanA 20 (wire msg_broken) store1
     = (Inl (Error ''TypeError''), store1)"
proof -
  have d: "Message_decrypt test_sodium test_codec chanA (wire msg_broken) = Inr content_broken"
    by (simp add: Message_decrypt_def test_defs wire_defs msg_broken_def)
  have c: "Message_chain test_sodium content_broken = Inr [test_link]"
    by (simp add: Message_chain_def Chain_new_def MAX_LENGTH_def content_broken_def
        signed_content_def Link_new_def test_link_def test_sodium_def
        MAX_DISPLAY_NAME_LENGTH_def)
  have k: "Chain_getLeafKey test_sodium test_codec chanA 20 [test_link] = None"
    by (simp add: Chain_getLeafKey_def Link_verify_def Link_isValid_def Link_tbs_def
        test_link_def test_sodium_def test_codec_def chanA_def replicate_num)
  have "\<not> Memory_hasMessage store1 (hash (wire msg_broken))"
    by (simp add: Memory_hasMessage_def wire_def msg_broken_def test_message_def store1_def
        hash_broken_def hash_root1_def)
  then show ?thesis
    using verify_broken_chain[OF d c k] by (rule receive_verify_throws)
qed

lemma receive_child_store1:
  "receive test_sodium test_codec chanA 20 msg_child store1 = (Inr True, store2)"
  by (simp add: receive_defs test_defs const_defs)

lemma decrypt_wire_child:
  "Message_decrypt test_sodium test_codec chanA (wire msg_child) = Inr content_child"
  by (simp add: Message_decrypt_def test_defs wire_defs)

lemma receive_wire_child_store1:
  "receive test_sodium test_codec chanA 20 (wire msg_child) store1 = (Inr True, store2)"
  by (simp add: receive_defs test_defs const_defs wire_defs)

lemma heights_ok_store1: "heights_ok store1"
  by (simp add: heights_ok_def store1_def test_message_def stored_root1_def)

lemma constructed_tall:
  "Message_new test_sodium test_codec test_rnd (test_options [hash_root1] 5 content_tall) = Inr msg_tall"
  by (simp add: Message_new_defs test_sodium_def chanA_def test_nonce msg_tall_def hash_root1_def)
     (simp add: codec_defs content_tall_def hash_tall_def hash_root1_def)

lemma verify_tall:
  "Message_verify test_sodium test_codec chanA 20 msg_tall = Inr (True, content_tall)"
  by (simp add: receive_defs test_defs test_defs_tall const_defs)

lemma parents_tall:
  "those (Channel_getMessages store1 (parents msg_tall)) =
     Some [stored_root1]"
  by (simp add: receive_defs test_defs test_defs_tall)

lemma constructed_long_tall:
  "Message_new test_sodium test_codec test_rnd (test_options [hash_root1] 5 content_long_tall)
     = Inr msg_long_tall"
  by (simp add: Message_new_defs test_sodium_def chanA_def test_nonce msg_long_tall_def
      hash_root1_def)
     (simp add: codec_defs content_long_tall_def hash_long_tall_def hash_root1_def test_link_def)

lemma deserialized_long_tall:
  "Message_new test_sodium test_codec test_rnd (wire_options msg_long_tall)
     = Inr (wire msg_long_tall)"
  by (simp add: Message_new_def wire_options_def wire_def msg_long_tall_def checkId_def
      checkHash_def ID_SIZE_def HASH_SIZE_def Let_def test_message_def test_sodium_def chanA_def
      hash_root1_def)
     (simp add: codec_defs content_long_tall_def hash_long_tall_def hash_root1_def test_link_def)

lemma decrypt_wire_long_tall:
  "Message_decrypt test_sodium test_codec chanA (wire msg_long_tall) = Inr content_long_tall"
  by (simp add: Message_decrypt_def test_defs wire_defs msg_long_tall_def)

lemma links_long_tall:
  "map_throw (Link_new test_sodium) (chain content_long_tall)
     = Inr [test_link, test_link, test_link, test_link]"
  by (simp add: content_long_tall_def signed_content_def Link_new_def test_link_def
      test_sodium_def MAX_DISPLAY_NAME_LENGTH_def)

lemma fresh_long_tall: "\<not> Memory_hasMessage store1 (hash (wire msg_long_tall))"
  by (simp add: Memory_hasMessage_def wire_def msg_long_tall_def test_message_def store1_def
      hash_long_tall_def hash_root1_def)

lemma parents_long_tall:
  "those (Channel_getMessages store1 (parents (wire msg_long_tall))) = Some [stored_root1]"
  by (simp add: Channel_getMessages_def Memory_getMessages_def Memory_getMessage_def wire_def
      msg_long_tall_def test_message_def store1_def)

lemma receive_long_tall:
  "receive test_sodium test_codec chanA 20 (wire msg_long_tall) store1
     = (Inl (Error ''Chain length overflow''), store1)"
proof -
  have "3 < length (chain content_long_tall)"
    by (simp add: content_long_tall_def signed_content_def)
  with decrypt_wire_long_tall links_long_tall
  have "Message_verify test_sodium test_codec chanA 20 (wire msg_long_tall)
          = Inl (Error ''Chain length overflow'')"
    by (rule verify_long_chain)
  with fresh_long_tall show ?thesis
    by (rule receive_verify_throws)
qed

text \<open>
  C4, as stated, fails: \<open>msg_long_tall\<close> is not stored, its parent \<open>msg_root1\<close> is
  stored with height 0, and its own height is 5 where 1 is expected. Its chain
  has four links, \<open>Message.verify\<close> throws the plain \<open>Error\<close> of the \<open>Chain\<close>
  constructor, and \<open>receive\<close> throws that \<open>Error\<close>, not a \<open>BanError\<close>.
\<close>

theorem receive_height_long_chain:
  "Message_new test_sodium test_codec test_rnd (test_options [hash_root1] 5 content_long_tall)
     = Inr msg_long_tall
   \<and> Message_new test_sodium test_codec test_rnd (wire_options msg_long_tall)
       = Inr (wire msg_long_tall)
   \<and> \<not> Memory_hasMessage store1 (hash (wire msg_long_tall))
   \<and> those (Channel_getMessages store1 (parents (wire msg_long_tall))) = Some [stored_root1]
   \<and> 1 + Max (height ` set [stored_root1]) = 1
   \<and> height (wire msg_long_tall) = 5
   \<and> Message_decrypt test_sodium test_codec chanA (wire msg_long_tall) = Inr content_long_tall
   \<and> length (chain content_long_tall) = 4
   \<and> receive test_sodium test_codec chanA 20 (wire msg_long_tall) store1
       = (Inl (Error ''Chain length overflow''), store1)
   \<and> \<not> isBanError (fst (receive test_sodium test_codec chanA 20 (wire msg_long_tall) store1))"
proof -
  have 1: "1 + Max (height ` set [stored_root1]) = 1" "height (wire msg_long_tall) = 5"
    "length (chain content_long_tall) = 4"
    by (simp_all add: stored_root1_def test_message_def wire_def msg_long_tall_def
        content_long_tall_def signed_content_def)
  have 2: "\<not> isBanError (fst (receive test_sodium test_codec chanA 20 (wire msg_long_tall) store1))"
    by (simp add: receive_long_tall)
  show ?thesis
    by (intro conjI constructed_long_tall deserialized_long_tall fresh_long_tall
        parents_long_tall 1 decrypt_wire_long_tall receive_long_tall 2)
qed

text \<open>
  C4, amended. A message that \<open>Channel.receive\<close> accepts has the height 1 + the
  greatest height of its parents, and 0 when it has no parents. A message that
  is not stored yet, whose parents are all stored and whose height differs from
  that value makes \<open>receive\<close> throw a \<open>BanError\<close>, and the storage stays as it was,
  unless its verification throws a plain \<open>Error\<close>. What verification throws,
  \<open>receive\<close> throws, and the storage stays as it was; for a chain of more than 3
  well-formed links \<open>Message.verify\<close> throws the plain \<open>Error\<close>
  "Chain length overflow", whatever the height.
\<close>

theorem receive_height:
  assumes "heights_ok d"
  shows "(receive sod cod chan now m d = (Inr True, d') \<longrightarrow>
            (\<exists>ps. those (Channel_getMessages d (parents m)) = Some ps \<and>
                  height m = (if ps = [] then 0 else 1 + Max (height ` set ps))))
       \<and> (\<not> Memory_hasMessage d (hash m) \<and>
          (\<forall>r. Message_verify sod cod chan now m \<noteq> Inl (Error r)) \<and>
          those (Channel_getMessages d (parents m)) = Some ps \<and>
          height m \<noteq> (if ps = [] then 0 else 1 + Max (height ` set ps))
          \<longrightarrow> isBanError (fst (receive sod cod chan now m d)) \<and>
              snd (receive sod cod chan now m d) = d)
       \<and> (\<not> Memory_hasMessage d (hash m) \<and> Message_verify sod cod chan now m = Inl e
          \<longrightarrow> receive sod cod chan now m d = (Inl e, d))
       \<and> (Message_decrypt sod cod chan m = Inr c \<and>
          map_throw (Link_new sod) (chain c) = Inr links \<and> 3 < length (chain c)
          \<longrightarrow> Message_verify sod cod chan now m = Inl (Error ''Chain length overflow''))"
proof (intro conjI impI)
  assume "receive sod cod chan now m d = (Inr True, d')"
  then obtain ps where ps: "those (Channel_getMessages d (parents m)) = Some ps"
    and h: "height m = computeHeight ps"
    by (rule receive_accepted_cases)
  from expected_height[OF assms ps] h
  show "\<exists>ps. those (Channel_getMessages d (parents m)) = Some ps \<and>
             height m = (if ps = [] then 0 else 1 + Max (height ` set ps))"
    using ps by auto
next
  assume a: "\<not> Memory_hasMessage d (hash m) \<and>
          (\<forall>r. Message_verify sod cod chan now m \<noteq> Inl (Error r)) \<and>
          those (Channel_getMessages d (parents m)) = Some ps \<and>
          height m \<noteq> (if ps = [] then 0 else 1 + Max (height ` set ps))"
  then have "height m \<noteq> computeHeight ps"
    using expected_height[OF assms, of "parents m" ps] by auto
  with a show ban: "isBanError (fst (receive sod cod chan now m d))"
    using receive_height_mismatch by blast
  then show "snd (receive sod cod chan now m d) = d"
    by (rule receive_ban_unchanged)
next
  assume "\<not> Memory_hasMessage d (hash m) \<and> Message_verify sod cod chan now m = Inl e"
  then show "receive sod cod chan now m d = (Inl e, d)"
    by (simp add: receive_verify_throws)
next
  assume "Message_decrypt sod cod chan m = Inr c \<and>
          map_throw (Link_new sod) (chain c) = Inr links \<and> 3 < length (chain c)"
  then show "Message_verify sod cod chan now m = Inl (Error ''Chain length overflow'')"
    using verify_long_chain by blast
qed

theorem receive_height_witness:
  "heights_ok store1
   \<and> Message_new test_sodium test_codec test_rnd (test_options [hash_root1] 1 content_child)
       = Inr msg_child
   \<and> Message_new test_sodium test_codec test_rnd (test_options [hash_root1] 5 content_tall)
       = Inr msg_tall
   \<and> receive test_sodium test_codec chanA 20 msg_child store1 = (Inr True, store2)
   \<and> (\<exists>ps. those (Channel_getMessages store1 (parents msg_child)) = Some ps \<and>
           height msg_child = (if ps = [] then 0 else 1 + Max (height ` set ps)))
   \<and> height msg_child = 1
   \<and> height msg_tall = 5
   \<and> isBanError (fst (receive test_sodium test_codec chanA 20 msg_tall store1))
   \<and> snd (receive test_sodium test_codec chanA 20 msg_tall store1) = store1
   \<and> Message_verify test_sodium test_codec chanA 20 (wire msg_long_tall)
       = Inl (Error ''Chain length overflow'')
   \<and> receive test_sodium test_codec chanA 20 (wire msg_long_tall) store1
       = (Inl (Error ''Chain length overflow''), store1)"
proof -
  note th = receive_height[OF heights_ok_store1, of test_sodium test_codec chanA 20]
  have 1: "\<exists>ps. those (Channel_getMessages store1 (parents msg_child)) = Some ps \<and>
           height msg_child = (if ps = [] then 0 else 1 + Max (height ` set ps))"
    using th[of msg_child store2] receive_child_store1 by blast
  have pre: "\<not> Memory_hasMessage store1 (hash msg_tall)"
    "\<forall>r. Message_verify test_sodium test_codec chanA 20 msg_tall \<noteq> Inl (Error r)"
    "height msg_tall \<noteq>
       (if [stored_root1] = [] then 0
        else 1 + Max (height ` set [stored_root1]))"
    by (simp_all add: verify_tall) (simp_all add: Memory_hasMessage_def test_defs test_defs_tall)
  have 2: "isBanError (fst (receive test_sodium test_codec chanA 20 msg_tall store1)) \<and>
           snd (receive test_sodium test_codec chanA 20 msg_tall store1) = store1"
    using th[of msg_tall _ "[stored_root1]"] pre parents_tall
    by blast
  have 3: "height msg_child = 1" "height msg_tall = 5"
    by (simp_all add: test_defs test_defs_tall)
  have "3 < length (chain content_long_tall)"
    by (simp add: content_long_tall_def signed_content_def)
  with decrypt_wire_long_tall links_long_tall
  have 4: "Message_verify test_sodium test_codec chanA 20 (wire msg_long_tall)
       = Inl (Error ''Chain length overflow'')"
    by (intro th[where m = "wire msg_long_tall" and c = content_long_tall, THEN conjunct2,
          THEN conjunct2, THEN conjunct2, rule_format]) simp
  with fresh_long_tall
  have 5: "receive test_sodium test_codec chanA 20 (wire msg_long_tall) store1
       = (Inl (Error ''Chain length overflow''), store1)"
    by (intro th[where m = "wire msg_long_tall", THEN conjunct2, THEN conjunct2, THEN conjunct1,
          rule_format]) simp
  show ?thesis
    using heights_ok_store1 constructed_child constructed_tall receive_child_store1 1 2 3 4 5
    by blast
qed

lemmas test_defs2 = content_future_def msg_future_def content_past_def msg_past_def
  hash_future_def hash_past_def

lemma constructed_future:
  "Message_new test_sodium test_codec test_rnd (test_options [hash_root1] 1 content_future) = Inr msg_future"
  by (simp add: Message_new_defs test_sodium_def chanA_def test_nonce msg_future_def hash_root1_def)
     (simp add: codec_defs content_future_def hash_future_def hash_root1_def)

lemma constructed_past:
  "Message_new test_sodium test_codec test_rnd (test_options [hash_root1] 1 content_past) = Inr msg_past"
  by (simp add: Message_new_defs test_sodium_def chanA_def test_nonce msg_past_def hash_root1_def)
     (simp add: codec_defs content_past_def hash_past_def hash_root1_def)

lemma verify_wire_future:
  "Message_verify test_sodium test_codec chanA 20 (wire msg_future) = Inr (True, content_future)"
  by (simp add: receive_defs test_defs test_defs2 const_defs wire_defs)

lemma verify_past:
  "Message_verify test_sodium test_codec chanA 20 msg_past = Inr (True, content_past)"
  by (simp add: receive_defs test_defs test_defs2 const_defs)

lemma verify_child:
  "Message_verify test_sodium test_codec chanA 20 msg_child = Inr (True, content_child)"
  by (simp add: receive_defs test_defs const_defs)

lemma parents_of_root1_children:
  "those (Channel_getMessages store1 [hash_root1]) =
     Some [stored_root1]"
  by (simp add: receive_defs test_defs)

lemma receive_timestamp_violation:
  assumes "\<not> Memory_hasMessage d (hash m)"
    and "Message_verify sod cod chan now m = Inr (ok, c)"
    and "those (Channel_getMessages d (parents m)) = Some ps"
    and "js_greater (timestamp c) (Num (now + FUTURE)) \<or>
         (length (filterParents ps) = length ps \<longrightarrow> js_less (timestamp c) (computeMaxTimestamp ps))"
  shows "isBanError (fst (receive sod cod chan now m d))"
  using assms by (auto simp: receive_def)

lemma constructed_nan:
  "Message_new test_sodium test_codec test_rnd (test_options [hash_root1] 1 content_nan) = Inr msg_nan"
  by (simp add: Message_new_defs test_sodium_def chanA_def test_nonce msg_nan_def hash_root1_def)
     (simp add: codec_defs content_nan_def hash_nan_def hash_root1_def)

lemma deserialized_nan:
  "Message_new test_sodium test_codec test_rnd (wire_options msg_nan) = Inr (wire msg_nan)"
  by (simp add: Message_new_def wire_options_def wire_def msg_nan_def checkId_def checkHash_def
      ID_SIZE_def HASH_SIZE_def Let_def test_message_def test_sodium_def chanA_def hash_root1_def)
     (simp add: codec_defs content_nan_def hash_nan_def hash_root1_def)

lemma verify_wire_nan:
  "Message_verify test_sodium test_codec chanA 20 (wire msg_nan) = Inr (True, content_nan)"
  by (simp add: receive_defs test_defs const_defs wire_defs msg_nan_def hash_nan_def)

lemma receive_wire_nan_store1:
  "receive test_sodium test_codec chanA 20 (wire msg_nan) store1 = (Inr True, store_nan)"
  by (simp add: receive_defs test_defs const_defs wire_defs msg_nan_def hash_nan_def
      store_nan_def stored_nan_def)

lemma constructed_long_future:
  "Message_new test_sodium test_codec test_rnd (test_options [hash_root1] 1 content_long_future)
     = Inr msg_long_future"
  by (simp add: Message_new_defs test_sodium_def chanA_def test_nonce msg_long_future_def
      hash_root1_def)
     (simp add: codec_defs content_long_future_def hash_long_future_def hash_root1_def
        test_link_def)

lemma decrypt_wire_long_future:
  "Message_decrypt test_sodium test_codec chanA (wire msg_long_future) = Inr content_long_future"
  by (simp add: Message_decrypt_def test_defs wire_defs msg_long_future_def)

lemma receive_long_future:
  "receive test_sodium test_codec chanA 20 (wire msg_long_future) store1
     = (Inl (Error ''Chain length overflow''), store1)"
proof -
  have "3 < length (chain content_long_future)"
    by (simp add: content_long_future_def signed_content_def)
  moreover have "map_throw (Link_new test_sodium) (chain content_long_future)
     = Inr [test_link, test_link, test_link, test_link]"
    by (simp add: content_long_future_def signed_content_def Link_new_def test_link_def
        test_sodium_def MAX_DISPLAY_NAME_LENGTH_def)
  ultimately have "Message_verify test_sodium test_codec chanA 20 (wire msg_long_future)
          = Inl (Error ''Chain length overflow'')"
    using decrypt_wire_long_future by (intro verify_long_chain)
  moreover have "\<not> Memory_hasMessage store1 (hash (wire msg_long_future))"
    by (simp add: Memory_hasMessage_def wire_def msg_long_future_def test_message_def store1_def
        hash_long_future_def hash_root1_def)
  ultimately show ?thesis
    by (intro receive_verify_throws)
qed

text \<open>
  C5, as stated, fails twice. \<open>msg_long_future\<close> is not stored, its parent is, and
  its timestamp 150 lies more than 120 seconds after the clock reading 20; its
  chain has four links, and \<open>receive\<close> throws the plain \<open>Error\<close> of the \<open>Chain\<close>
  constructor, not a \<open>BanError\<close>. The timestamp of \<open>msg_nan\<close> is \<open>NaN\<close>, which
  is neither at most the clock reading plus 120 seconds nor at least the timestamp
  of its parent: both comparisons of \<open>receive\<close> are false for it, and \<open>receive\<close>
  accepts and stores the message.
\<close>

theorem receive_timestamp_unchecked:
  "Message_new test_sodium test_codec test_rnd (test_options [hash_root1] 1 content_long_future)
     = Inr msg_long_future
   \<and> Message_decrypt test_sodium test_codec chanA (wire msg_long_future)
       = Inr content_long_future
   \<and> timestamp content_long_future = Num 150
   \<and> length (chain content_long_future) = 4
   \<and> receive test_sodium test_codec chanA 20 (wire msg_long_future) store1
       = (Inl (Error ''Chain length overflow''), store1)
   \<and> \<not> isBanError (fst (receive test_sodium test_codec chanA 20 (wire msg_long_future) store1))
   \<and> Message_new test_sodium test_codec test_rnd (test_options [hash_root1] 1 content_nan)
       = Inr msg_nan
   \<and> Message_new test_sodium test_codec test_rnd (wire_options msg_nan) = Inr (wire msg_nan)
   \<and> Message_verify test_sodium test_codec chanA 20 (wire msg_nan) = Inr (True, content_nan)
   \<and> timestamp content_nan = NaN
   \<and> \<not> js_less_eq (timestamp content_nan) (Num (20 + 120))
   \<and> \<not> js_greater_eq (timestamp content_nan) (timestamp (content stored_root1))
   \<and> receive test_sodium test_codec chanA 20 (wire msg_nan) store1 = (Inr True, store_nan)
   \<and> Memory_hasMessage store_nan (hash msg_nan)"
proof -
  have 1: "timestamp content_long_future = Num 150" "length (chain content_long_future) = 4"
    "timestamp content_nan = NaN"
    "\<not> js_less_eq (timestamp content_nan) (Num (20 + 120))"
    "\<not> js_greater_eq (timestamp content_nan) (timestamp (content stored_root1))"
    "Memory_hasMessage store_nan (hash msg_nan)"
    by (simp_all add: content_long_future_def content_nan_def signed_content_def
        js_greater_eq_def stored_root1_def test_message_def content_root1_def
        Memory_hasMessage_def store_nan_def msg_nan_def)
  have 2: "\<not> isBanError (fst (receive test_sodium test_codec chanA 20 (wire msg_long_future) store1))"
    by (simp add: receive_long_future)
  show ?thesis
    by (intro conjI constructed_long_future decrypt_wire_long_future 1 receive_long_future 2
        constructed_nan deserialized_nan verify_wire_nan receive_wire_nan_store1)
qed

text \<open>
  C5, amended. \<open>Channel.receive\<close> accepts a message whose timestamp is a number
  only if that number is at most the current time plus 120 seconds and at least
  the timestamp of each of its parents, all of which are numbers. A message that
  is not stored yet, for which \<open>Message.verify\<close> returns, whose parents are all
  stored and whose timestamp is a number that breaks one of the two bounds makes
  \<open>receive\<close> throw a \<open>BanError\<close>, and the storage stays as it was. What
  \<open>Message.verify\<close> throws, \<open>receive\<close> throws, and the storage stays as it was.
\<close>

theorem receive_timestamp:
  "(receive sod cod chan now m d = (Inr True, d') \<longrightarrow>
      (\<exists>c ps us. Message_verify sod cod chan now m = Inr (True, c) \<and>
              those (Channel_getMessages d (parents m)) = Some ps \<and>
              map (\<lambda>p. timestamp (content p)) ps = map Num us \<and>
              (\<forall>t. timestamp c = Num t \<longrightarrow> t \<le> now + 120 \<and> (\<forall>u\<in>set us. u \<le> t))))
   \<and> (\<not> Memory_hasMessage d (hash m) \<and>
      Message_verify sod cod chan now m = Inr (ok, c) \<and>
      those (Channel_getMessages d (parents m)) = Some ps \<and>
      timestamp c = Num t \<and>
      (t > now + 120 \<or> (\<exists>p\<in>set ps. \<exists>u. timestamp (content p) = Num u \<and> t < u))
      \<longrightarrow> isBanError (fst (receive sod cod chan now m d)) \<and>
          snd (receive sod cod chan now m d) = d)
   \<and> (\<not> Memory_hasMessage d (hash m) \<and> Message_verify sod cod chan now m = Inl e
      \<longrightarrow> receive sod cod chan now m d = (Inl e, d))"
proof (intro conjI impI)
  assume "receive sod cod chan now m d = (Inr True, d')"
  then obtain c ps where v: "Message_verify sod cod chan now m = Inr (True, c)"
    and ps: "those (Channel_getMessages d (parents m)) = Some ps"
    and kept: "length (filterParents ps) = length ps"
    and fut: "\<not> js_greater (timestamp c) (Num (now + FUTURE))"
    and past: "\<not> js_less (timestamp c) (computeMaxTimestamp ps)"
    by (rule receive_accepted_cases)
  from filterParents_all_kept[OF kept]
  obtain us where us: "map (\<lambda>p. timestamp (content p)) ps = map Num us"
    and mx: "computeMaxTimestamp ps = Num (Max (insert 0 (set us)))"
    by blast
  have "t \<le> now + 120 \<and> (\<forall>u\<in>set us. u \<le> t)" if t: "timestamp c = Num t" for t
  proof
    from fut t show "t \<le> now + 120"
      by (simp add: js_greater_def FUTURE_def)
    from past t mx have "\<not> t < Max (insert 0 (set us))"
      by simp
    then have "Max (insert 0 (set us)) \<le> t"
      by (rule leI)
    then show "\<forall>u\<in>set us. u \<le> t"
      by simp
  qed
  with v ps us
  show "\<exists>c ps us. Message_verify sod cod chan now m = Inr (True, c) \<and>
              those (Channel_getMessages d (parents m)) = Some ps \<and>
              map (\<lambda>p. timestamp (content p)) ps = map Num us \<and>
              (\<forall>t. timestamp c = Num t \<longrightarrow> t \<le> now + 120 \<and> (\<forall>u\<in>set us. u \<le> t))"
    by blast
next
  assume a: "\<not> Memory_hasMessage d (hash m) \<and>
      Message_verify sod cod chan now m = Inr (ok, c) \<and>
      those (Channel_getMessages d (parents m)) = Some ps \<and>
      timestamp c = Num t \<and>
      (t > now + 120 \<or> (\<exists>p\<in>set ps. \<exists>u. timestamp (content p) = Num u \<and> t < u))"
  have "js_greater (timestamp c) (Num (now + FUTURE)) \<or>
         (length (filterParents ps) = length ps \<longrightarrow> js_less (timestamp c) (computeMaxTimestamp ps))"
  proof (cases "t > now + 120")
    case True
    with a show ?thesis by (simp add: js_greater_def FUTURE_def)
  next
    case False
    with a obtain p u where p: "p \<in> set ps" "timestamp (content p) = Num u" "t < u"
      by blast
    have "js_less (timestamp c) (computeMaxTimestamp ps)"
      if "length (filterParents ps) = length ps"
    proof -
      from filterParents_all_kept[OF that]
      obtain us where us: "map (\<lambda>p. timestamp (content p)) ps = map Num us"
        and mx: "computeMaxTimestamp ps = Num (Max (insert 0 (set us)))"
        by blast
      from p(1,2) have "Num u \<in> set (map (\<lambda>p. timestamp (content p)) ps)"
        by force
      with us have "u \<in> set us"
        by auto
      then have "u \<le> Max (insert 0 (set us))"
        by simp
      with p(3) a mx show ?thesis
        by simp
    qed
    then show ?thesis by blast
  qed
  with a show "isBanError (fst (receive sod cod chan now m d))"
    using receive_timestamp_violation by blast
  then show "snd (receive sod cod chan now m d) = d"
    by (rule receive_ban_unchanged)
next
  assume "\<not> Memory_hasMessage d (hash m) \<and> Message_verify sod cod chan now m = Inl e"
  then show "receive sod cod chan now m d = (Inl e, d)"
    by (simp add: receive_verify_throws)
qed

theorem receive_timestamp_witness:
  "Message_new test_sodium test_codec test_rnd (test_options [hash_root1] 1 content_future)
       = Inr msg_future
   \<and> Message_new test_sodium test_codec test_rnd (test_options [hash_root1] 1 content_past)
       = Inr msg_past
   \<and> receive test_sodium test_codec chanA 20 msg_child store1 = (Inr True, store2)
   \<and> timestamp content_child = Num 12
   \<and> timestamp content_root1 = Num 10
   \<and> (\<exists>c ps us. Message_verify test_sodium test_codec chanA 20 msg_child = Inr (True, c) \<and>
             those (Channel_getMessages store1 (parents msg_child)) = Some ps \<and>
             map (\<lambda>p. timestamp (content p)) ps = map Num us \<and>
             (\<forall>t. timestamp c = Num t \<longrightarrow> t \<le> 20 + 120 \<and> (\<forall>u\<in>set us. u \<le> t)))
   \<and> timestamp content_future = Num 150
   \<and> isBanError (fst (receive test_sodium test_codec chanA 20 (wire msg_future) store1))
   \<and> snd (receive test_sodium test_codec chanA 20 (wire msg_future) store1) = store1
   \<and> timestamp content_past = Num 5
   \<and> isBanError (fst (receive test_sodium test_codec chanA 20 msg_past store1))
   \<and> snd (receive test_sodium test_codec chanA 20 msg_past store1) = store1
   \<and> receive test_sodium test_codec chanA 20 (wire msg_long_future) store1
       = (Inl (Error ''Chain length overflow''), store1)"
proof -
  note th = receive_timestamp[of test_sodium test_codec chanA 20]
  note accepted = th[THEN conjunct1, rule_format]
  note banned = th[THEN conjunct2, THEN conjunct1, rule_format]
  note thrown = th[THEN conjunct2, THEN conjunct2, rule_format]
  have 1: "\<exists>c ps us. Message_verify test_sodium test_codec chanA 20 msg_child = Inr (True, c) \<and>
             those (Channel_getMessages store1 (parents msg_child)) = Some ps \<and>
             map (\<lambda>p. timestamp (content p)) ps = map Num us \<and>
             (\<forall>t. timestamp c = Num t \<longrightarrow> t \<le> 20 + 120 \<and> (\<forall>u\<in>set us. u \<le> t))"
    using receive_child_store1 by (rule accepted)
  have ts: "timestamp content_child = Num 12" "timestamp content_root1 = Num 10"
    "timestamp content_future = Num 150" "timestamp content_past = Num 5"
    by (simp_all add: test_defs test_defs2)
  have ps: "parents (wire msg_future) = [hash_root1]" "parents msg_past = [hash_root1]"
    by (simp_all add: test_defs test_defs2 wire_def)
  have fresh: "\<not> Memory_hasMessage store1 (hash (wire msg_future))"
    "\<not> Memory_hasMessage store1 (hash msg_past)"
    by (simp_all add: Memory_hasMessage_def test_defs test_defs2 wire_def)
  have 2: "isBanError (fst (receive test_sodium test_codec chanA 20 (wire msg_future) store1)) \<and>
      snd (receive test_sodium test_codec chanA 20 (wire msg_future) store1) = store1"
    using fresh(1) verify_wire_future parents_of_root1_children ps(1) ts(3)
    by (intro banned[where ok = True and c = content_future and ps = "[stored_root1]"
          and t = 150]) simp
  have "timestamp (content stored_root1) = Num 10"
    using ts by (simp add: test_message_def stored_root1_def)
  then have 3: "isBanError (fst (receive test_sodium test_codec chanA 20 msg_past store1)) \<and>
      snd (receive test_sodium test_codec chanA 20 msg_past store1) = store1"
    using fresh(2) verify_past parents_of_root1_children ps(2) ts(4)
    by (intro banned[where ok = True and c = content_past and ps = "[stored_root1]"
          and t = 5]) simp
  have "3 < length (chain content_long_future)"
    by (simp add: content_long_future_def signed_content_def)
  moreover have "map_throw (Link_new test_sodium) (chain content_long_future)
     = Inr [test_link, test_link, test_link, test_link]"
    by (simp add: content_long_future_def signed_content_def Link_new_def test_link_def
        test_sodium_def MAX_DISPLAY_NAME_LENGTH_def)
  ultimately have v: "Message_verify test_sodium test_codec chanA 20 (wire msg_long_future)
          = Inl (Error ''Chain length overflow'')"
    using decrypt_wire_long_future by (intro verify_long_chain)
  have "\<not> Memory_hasMessage store1 (hash (wire msg_long_future))"
    by (simp add: Memory_hasMessage_def wire_def msg_long_future_def test_message_def store1_def
        hash_long_future_def hash_root1_def)
  with v have 4: "receive test_sodium test_codec chanA 20 (wire msg_long_future) store1
       = (Inl (Error ''Chain length overflow''), store1)"
    by (intro thrown) simp
  show ?thesis
    by (intro conjI constructed_future constructed_past receive_child_store1 ts 1
        2[THEN conjunct1] 2[THEN conjunct2] 3[THEN conjunct1] 3[THEN conjunct2] 4)
qed

section \<open>\<open>Channel.bulk\<close>\<close>

lemma map_throw_checkHash:
  "map_throw (\<lambda>h. checkHash h msg) hs =
     (if \<exists>h\<in>set hs. length h \<noteq> HASH_SIZE then Inl (BanError msg)
      else Inr (map (\<lambda>h. ()) hs))"
  by (induction hs) (auto simp: checkHash_def)

lemma map_filter_stored:
  assumes "keys_ok d"
  shows "map hash (List.map_filter (\<lambda>x. x) (map (messageByHash d) hs)) =
         filter (\<lambda>h. messageByHash d h \<noteq> None) hs"
proof (induction hs)
  case Nil
  then show ?case by (simp add: List.map_filter_simps)
next
  case (Cons h hs)
  show ?case
  proof (cases "messageByHash d h")
    case None
    with Cons show ?thesis by (simp add: List.map_filter_simps)
  next
    case (Some m)
    with assms have "hash m = h"
      by (simp add: keys_ok_def)
    with Some Cons show ?thesis by (simp add: List.map_filter_simps)
  qed
qed

lemma keys_ok_store2: "keys_ok store2"
  by (simp add: keys_ok_def store2_def test_message_def stored_root1_def stored_child_def)

text \<open>
  C7. With the default \<open>maxBulkCount\<close> of \<open>MAX_BULK_COUNT = 128\<close>, \<open>Channel.bulk\<close>
  looks at the first 128 of the hashes it is given and no more. When each of
  them has the size of a hash, it returns the stored messages among them, in
  the order of the input and with repetitions kept, and \<open>forwardIndex\<close> is the
  number of hashes looked at; a hash of another size among them is a \<open>BanError\<close>.
\<close>

theorem bulk_result:
  assumes "keys_ok d" and "maxBulkCount chan = MAX_BULK_COUNT"
  shows "MAX_BULK_COUNT = 128 \<and>
         (if \<exists>h\<in>set (take 128 hashes). length h \<noteq> 32
          then bulk chan hashes d = Inl (BanError ''Invalid hash size in bulk()'')
          else \<exists>res. bulk chan hashes d = Inr res \<and>
                 map hash (bulk_messages res)
                   = filter (Memory_hasMessage d) (take 128 hashes) \<and>
                 map Some (bulk_messages res)
                   = filter (\<lambda>x. x \<noteq> None) (map (Memory_getMessage d) (take 128 hashes)) \<and>
                 forwardIndex res = min 128 (length hashes))"
proof -
  have k: "maxBulkCount chan = 128"
    using assms(2) by (simp add: MAX_BULK_COUNT_def)
  have some: "map Some (List.map_filter (\<lambda>x. x) xs) = filter (\<lambda>x. x \<noteq> None) xs"
    for xs :: "content message option list"
    by (induction xs) (auto simp: List.map_filter_simps)
  have g: "Memory_getMessage d = messageByHash d"
    by (rule ext) (simp add: Memory_getMessage_def)
  have hm: "Memory_hasMessage d = (\<lambda>h. messageByHash d h \<noteq> None)"
    by (rule ext) (simp add: Memory_hasMessage_def)
  show ?thesis
  proof (cases "\<exists>h\<in>set (take 128 hashes). length h \<noteq> 32")
    case True
    then show ?thesis
      by (simp add: bulk_def k map_throw_checkHash HASH_SIZE_def MAX_BULK_COUNT_def)
  next
    case False
    then have b: "bulk chan hashes d =
        Inr \<lparr>bulk_messages = List.map_filter (\<lambda>x. x) (map (messageByHash d) (take 128 hashes)),
             forwardIndex = length (take 128 hashes)\<rparr>"
      by (simp add: bulk_def k map_throw_checkHash HASH_SIZE_def
          Channel_getMessages_def Memory_getMessages_def g)
    show ?thesis
      using False map_filter_stored[OF assms(1), of "take 128 hashes"]
        some[of "map (messageByHash d) (take 128 hashes)"]
      by (simp add: b g hm MAX_BULK_COUNT_def min.commute)
  qed
qed

theorem bulk_result_witness:
  "keys_ok store2 \<and> maxBulkCount chanA = MAX_BULK_COUNT
   \<and> bulk chanA [hash_child, hash_other, hash_root1, hash_child] store2 =
       Inr \<lparr>bulk_messages =
              [stored_child,
               stored_root1,
               stored_child],
            forwardIndex = 4\<rparr>
   \<and> bulk chanA [hash_child, ''short''] store2 = Inl (BanError ''Invalid hash size in bulk()'')
   \<and> bulk chanA (replicate 130 hash_other) store2 = Inr \<lparr>bulk_messages = [], forwardIndex = 128\<rparr>"
proof -
  have c: "maxBulkCount chanA = MAX_BULK_COUNT"
    by (simp add: chanA_def)
  note th = bulk_result[OF keys_ok_store2 c]
  have 1: "bulk chanA [hash_child, hash_other, hash_root1, hash_child] store2 =
       Inr \<lparr>bulk_messages =
              [stored_child,
               stored_root1,
               stored_child],
            forwardIndex = 4\<rparr>"
  proof -
    have lens: "length hash_child = 32" "length hash_other = 32" "length hash_root1 = 32"
      by (simp_all add: hash_child_def hash_other_def hash_root1_def)
    have "\<not> (\<exists>h\<in>set (take 128 [hash_child, hash_other, hash_root1, hash_child]).
              length h \<noteq> 32)"
      using lens by simp
    with th[of "[hash_child, hash_other, hash_root1, hash_child]"]
    obtain res where r: "bulk chanA [hash_child, hash_other, hash_root1, hash_child] store2 = Inr res"
      "map Some (bulk_messages res) =
         filter (\<lambda>x. x \<noteq> None)
           (map (Memory_getMessage store2) (take 128 [hash_child, hash_other, hash_root1, hash_child]))"
      "forwardIndex res = min 128 (length [hash_child, hash_other, hash_root1, hash_child])"
      by auto
    have ne: "hash_other \<noteq> hash_root1" "hash_other \<noteq> hash_child" "hash_root1 \<noteq> hash_child"
      by (simp_all add: hash_child_def hash_other_def hash_root1_def)
    from r(2) have "map Some (bulk_messages res) =
        map Some [stored_child,
               stored_root1,
               stored_child]"
      using ne by (simp add: Memory_getMessage_def store2_def)
    then have "bulk_messages res = [stored_child,
               stored_root1,
               stored_child]"
      by (simp add: map_eq_Cons_conv)
    with r(1,3) show ?thesis by (cases res) simp
  qed
  have 2: "bulk chanA [hash_child, ''short''] store2 = Inl (BanError ''Invalid hash size in bulk()'')"
    using th[of "[hash_child, ''short'']"] by (simp add: hash_child_def)
  have 3: "bulk chanA (replicate 130 hash_other) store2 = Inr \<lparr>bulk_messages = [], forwardIndex = 128\<rparr>"
  proof -
    have len: "length hash_other = 32"
      by (simp add: hash_other_def)
    have "\<not> (\<exists>h\<in>set (take 128 (replicate 130 hash_other)). length h \<noteq> 32)"
      using len by (auto dest: in_set_takeD)
    with th[of "replicate 130 hash_other"]
    obtain res where r: "bulk chanA (replicate 130 hash_other) store2 = Inr res"
      "map hash (bulk_messages res) =
         filter (Memory_hasMessage store2) (take 128 (replicate 130 hash_other))"
      "forwardIndex res = min 128 (length (replicate 130 hash_other))"
      by auto
    have "\<not> Memory_hasMessage store2 hash_other"
      by (simp add: Memory_hasMessage_def store2_def hash_child_def hash_other_def hash_root1_def)
    then have "filter (Memory_hasMessage store2) (take 128 (replicate 130 hash_other)) = []"
      by (auto simp: filter_empty_conv dest: in_set_takeD)
    with r(2) have "bulk_messages res = []"
      by simp
    with r(1,3) show ?thesis by (cases res) simp
  qed
  show ?thesis
    using keys_ok_store2 c 1 2 3 by blast
qed

section \<open>Root messages and empty chains\<close>

lemma receive_root1_empty:
  "receive test_sodium test_codec chanA 20 msg_root1 empty_data = (Inr True, store1)"
  by (simp add: receive_defs test_defs const_defs empty_data_def)

lemma js_less_eq_not_less: "js_less_eq a b \<Longrightarrow> \<not> js_less b a"
  by (cases a; cases b) simp_all

lemma verify_root2:
  "Message_verify test_sodium test_codec chanA 20 msg_root2 = Inr (True, content_root2)"
  by (simp add: receive_defs test_defs const_defs)

lemma receive_root2_store1:
  "fst (receive test_sodium test_codec chanA 20 msg_root2 store1) = Inr True"
  by (simp add: receive_defs test_defs const_defs)

text \<open>
  C1, as stated, fails: the channel holds the root \<open>msg_root1\<close>, and \<open>receive\<close>
  accepts and stores \<open>msg_root2\<close>, a different message with no parents that the
  channel key has signed.
\<close>

theorem second_root_accepted:
  "Channel_new test_sodium ''a'' ''KA'' False = Inr chanA
   \<and> Message_new test_sodium test_codec test_rnd (test_options [] 0 content_root1)
       = Inr msg_root1
   \<and> Message_new test_sodium test_codec test_rnd (test_options [] 0 content_root2)
       = Inr msg_root2
   \<and> receive test_sodium test_codec chanA 20 msg_root1 empty_data = (Inr True, store1)
   \<and> parents msg_root1 = []
   \<and> parents msg_root2 = []
   \<and> hash msg_root2 \<noteq> hash msg_root1
   \<and> Message_verify test_sodium test_codec chanA 20 msg_root2 = Inr (True, content_root2)
   \<and> fst (receive test_sodium test_codec chanA 20 msg_root2 store1) = Inr True
   \<and> Memory_hasMessage (snd (receive test_sodium test_codec chanA 20 msg_root2 store1))
        (hash msg_root1)
   \<and> Memory_hasMessage (snd (receive test_sodium test_codec chanA 20 msg_root2 store1))
        (hash msg_root2)
   \<and> Memory_getMessageCount (snd (receive test_sodium test_codec chanA 20 msg_root2 store1)) = 2"
proof -
  have 1: "parents msg_root1 = []" "parents msg_root2 = []" "hash msg_root2 \<noteq> hash msg_root1"
    by (simp_all add: test_defs)
  have 2: "snd (receive test_sodium test_codec chanA 20 msg_root2 store1)
             = Memory_addMessage (decrypted msg_root2 content_root2) store1"
    by (simp add: receive_defs test_defs const_defs)
  have 3: "Memory_hasMessage (Memory_addMessage (decrypted msg_root2 content_root2) store1)
             (hash msg_root1)"
    "Memory_hasMessage (Memory_addMessage (decrypted msg_root2 content_root2) store1)
             (hash msg_root2)"
    "Memory_getMessageCount (Memory_addMessage (decrypted msg_root2 content_root2) store1) = 2"
    by (simp_all add: Memory_hasMessage_def Memory_addMessage_def Memory_getMessageCount_def
        decrypted_def test_defs)
  show ?thesis
    using constructed_chanA constructed_root1 constructed_root2 receive_root1_empty
      verify_root2 receive_root2_store1 1 3
    unfolding 2 by blast
qed

text \<open>
  C1, amended. A message whose hash is already stored is not stored again:
  \<open>receive\<close> returns \<open>false\<close> and the storage stays as it was. A message with another
  hash, no parents and a valid signature is accepted and stored when its height
  is 0, its timestamp lies between 0 and the current time plus 120 seconds and
  its body is \<open>Root\<close>; whether the channel holds a root already plays no part.
\<close>

theorem receive_root:
  "(Memory_hasMessage d (hash m) \<longrightarrow> receive sod cod chan now m d = (Inr False, d))
   \<and> (\<not> Memory_hasMessage d (hash m) \<and>
      Message_verify sod cod chan now m = Inr (True, c) \<and>
      parents m = [] \<and> height m = 0 \<and>
      timestamp c = Num t \<and> 0 \<le> t \<and> t \<le> now + 120 \<and>
      body c = Root
      \<longrightarrow> receive sod cod chan now m d = (Inr True, Memory_addMessage (decrypted m c) d) \<and>
          Memory_hasMessage (Memory_addMessage (decrypted m c) d) (hash m))"
  by (auto simp: receive_def Channel_getMessages_def Memory_getMessages_def filterParents_def
      computeMaxTimestamp_def computeHeight_def MAX_LEAVES_COUNT_def FUTURE_def
      Memory_hasMessage_def Memory_addMessage_def decrypted_def js_greater_def)

theorem receive_root_witness:
  "Memory_hasMessage store1 (hash msg_root1)
   \<and> receive test_sodium test_codec chanA 20 msg_root1 store1 = (Inr False, store1)
   \<and> receive test_sodium test_codec chanA 20 msg_root2 store1 =
       (Inr True, Memory_addMessage (decrypted msg_root2 content_root2) store1)
   \<and> Memory_hasMessage (Memory_addMessage (decrypted msg_root2 content_root2) store1)
       (hash msg_root2)"
proof -
  have a: "Memory_hasMessage store1 (hash msg_root1)"
    by (simp add: Memory_hasMessage_def test_defs)
  have b: "\<not> Memory_hasMessage store1 (hash msg_root2)"
    "parents msg_root2 = []" "height msg_root2 = 0"
    "timestamp content_root2 = Num 11" "(0::real) \<le> 11" "(11::real) \<le> 20 + 120"
    "body content_root2 = Root"
    by (simp_all add: Memory_hasMessage_def test_defs)
  from receive_root[of store1 msg_root1 test_sodium test_codec chanA 20] a
  have 1: "receive test_sodium test_codec chanA 20 msg_root1 store1 = (Inr False, store1)"
    by blast
  from receive_root[of store1 msg_root2 test_sodium test_codec chanA 20 content_root2 11]
    b verify_root2
  have 2: "receive test_sodium test_codec chanA 20 msg_root2 store1 =
       (Inr True, Memory_addMessage (decrypted msg_root2 content_root2) store1) \<and>
     Memory_hasMessage (Memory_addMessage (decrypted msg_root2 content_root2) store1)
       (hash msg_root2)"
    by blast
  show ?thesis
    using a 1 2 by blast
qed

text \<open>
  C2, as stated, fails: \<open>msg_child\<close> has a parent and an empty chain, the channel
  key has signed it, verification returns \<open>true\<close> and \<open>receive\<close> accepts it.
\<close>

theorem empty_chain_accepted:
  "Channel_new test_sodium ''a'' ''KA'' False = Inr chanA
   \<and> Message_new test_sodium test_codec test_rnd (test_options [hash_root1] 1 content_child)
       = Inr msg_child
   \<and> parents msg_child = [hash_root1]
   \<and> Message_decrypt test_sodium test_codec chanA msg_child = Inr content_child
   \<and> chain content_child = []
   \<and> body content_child = Json ''{}''
   \<and> Message_verify test_sodium test_codec chanA 20 msg_child = Inr (True, content_child)
   \<and> receive test_sodium test_codec chanA 20 msg_child store1 = (Inr True, store2)"
proof -
  have "parents msg_child = [hash_root1]" "chain content_child = []"
    "body content_child = Json ''{}''"
    "Message_decrypt test_sodium test_codec chanA msg_child = Inr content_child"
    by (simp_all add: Message_decrypt_def test_defs)
  then show ?thesis
    using constructed_chanA constructed_child verify_child receive_child_store1 by blast
qed

text \<open>
  C2, amended. For a message whose decrypted chain has length 0 the chain walk
  ends at the public key of the channel: verification returns what the signature
  check under that key returns. No limit applies to the JSON of such a message,
  and \<open>receive\<close> accepts it, parents or not, when the signature is valid and the
  checks of its parents, height, timestamp and body pass.
\<close>

theorem verify_empty_chain:
  "(Message_decrypt sod cod chan m = Inr c \<and> chain c = [] \<longrightarrow>
      Message_verify sod cod chan now m =
        Inr (crypto_sign_verify_detached sod (signature c) (Message_tbs cod m c)
               (publicKey chan), c))
   \<and> checkJSONLimit j 0 = Inr ()
   \<and> (\<not> Memory_hasMessage d (hash m) \<and>
      Message_decrypt sod cod chan m = Inr c \<and> chain c = [] \<and>
      crypto_sign_verify_detached sod (signature c) (Message_tbs cod m c) (publicKey chan) \<and>
      length (parents m) \<le> 128 \<and>
      those (Channel_getMessages d (parents m)) = Some ps \<and> ps \<noteq> [] \<and>
      length (filterParents ps) = length ps \<and>
      height m = computeHeight ps \<and>
      js_less_eq (timestamp c) (Num (now + 120)) \<and>
      js_less_eq (computeMaxTimestamp ps) (timestamp c) \<and>
      body c = Json j
      \<longrightarrow> receive sod cod chan now m d = (Inr True, Memory_addMessage (decrypted m c) d))"
proof (intro conjI impI)
  assume "Message_decrypt sod cod chan m = Inr c \<and> chain c = []"
  then show "Message_verify sod cod chan now m =
        Inr (crypto_sign_verify_detached sod (signature c) (Message_tbs cod m c)
               (publicKey chan), c)"
    by (simp add: Message_verify_def Message_chain_def Chain_new_def Chain_getLeafKey_def)
next
  show "checkJSONLimit j 0 = Inr ()"
    by (simp add: checkJSONLimit_def jsonLimit_def)
next
  assume a: "\<not> Memory_hasMessage d (hash m) \<and>
      Message_decrypt sod cod chan m = Inr c \<and> chain c = [] \<and>
      crypto_sign_verify_detached sod (signature c) (Message_tbs cod m c) (publicKey chan) \<and>
      length (parents m) \<le> 128 \<and>
      those (Channel_getMessages d (parents m)) = Some ps \<and> ps \<noteq> [] \<and>
      length (filterParents ps) = length ps \<and>
      height m = computeHeight ps \<and>
      js_less_eq (timestamp c) (Num (now + 120)) \<and>
      js_less_eq (computeMaxTimestamp ps) (timestamp c) \<and>
      body c = Json j"
  then have v: "Message_verify sod cod chan now m = Inr (True, c)"
    by (simp add: Message_verify_def Message_chain_def Chain_new_def Chain_getLeafKey_def)
  have "checkJSONLimit (body_json (body c)) (length (chain c)) = Inr ()"
    using a by (simp add: checkJSONLimit_def jsonLimit_def)
  moreover from a have "\<not> js_greater (timestamp c) (Num (now + FUTURE))"
    "\<not> js_less (timestamp c) (computeMaxTimestamp ps)"
    by (simp_all add: js_greater_def FUTURE_def js_less_eq_not_less)
  ultimately show "receive sod cod chan now m d = (Inr True, Memory_addMessage (decrypted m c) d)"
    using a v by (simp add: receive_def MAX_LEAVES_COUNT_def)
qed

theorem verify_empty_chain_witness:
  "Message_decrypt test_sodium test_codec chanA msg_child = Inr content_child
   \<and> chain content_child = []
   \<and> crypto_sign_verify_detached test_sodium (signature content_child)
        (Message_tbs test_codec msg_child content_child) (publicKey chanA)
   \<and> Message_verify test_sodium test_codec chanA 20 msg_child = Inr (True, content_child)
   \<and> receive test_sodium test_codec chanA 20 msg_child store1 =
        (Inr True, Memory_addMessage (decrypted msg_child content_child) store1)"
proof -
  have d: "Message_decrypt test_sodium test_codec chanA msg_child = Inr content_child"
    "chain content_child = []"
    by (simp_all add: Message_decrypt_def test_defs)
  have s: "crypto_sign_verify_detached test_sodium (signature content_child)
        (Message_tbs test_codec msg_child content_child) (publicKey chanA)"
    by (simp add: Message_tbs_def test_defs)
  note th = verify_empty_chain[of test_sodium test_codec chanA msg_child content_child 20
      "''{}''" store1 "[stored_root1]"]
  from th d s
  have 1: "Message_verify test_sodium test_codec chanA 20 msg_child = Inr (True, content_child)"
    by simp
  have pre: "\<not> Memory_hasMessage store1 (hash msg_child)"
    "length (parents msg_child) \<le> 128"
    "those (Channel_getMessages store1 (parents msg_child)) =
       Some [stored_root1]"
    "length (filterParents [stored_root1]) =
       length [stored_root1]"
    "height msg_child = computeHeight [stored_root1]"
    "js_less_eq (timestamp content_child) (Num (20 + 120))"
    "js_less_eq (computeMaxTimestamp [stored_root1]) (timestamp content_child)"
    "body content_child = Json ''{}''"
    by (simp_all add: receive_defs test_defs const_defs)
  from th d s pre
  have 2: "receive test_sodium test_codec chanA 20 msg_child store1 =
        (Inr True, Memory_addMessage (decrypted msg_child content_child) store1)"
    by simp
  show ?thesis
    using d s 1 2 by blast
qed

section \<open>\<open>Channel.encrypt\<close> and \<open>Channel.decrypt\<close>\<close>

lemma length_test_mac: "length (test_mac n key) = 16"
  by (simp add: test_mac_def)

lemma secretbox_ok_test: "secretbox_ok test_sodium"
  by (simp add: secretbox_ok_def test_sodium_def length_test_mac)

text \<open>
  C3, as stated, fails for the empty byte string: its box is exactly
  \<open>crypto_secretbox_MACBYTES\<close> long, which \<open>Channel.decrypt\<close> refuses.
\<close>

theorem decrypt_encrypt_empty:
  "secretbox_ok test_sodium
   \<and> length (snd (Channel_encrypt test_sodium chanA test_rnd [])) = 16
   \<and> crypto_secretbox_open_easy test_sodium
        (snd (Channel_encrypt test_sodium chanA test_rnd []))
        (fst (Channel_encrypt test_sodium chanA test_rnd [])) (encryptionKey chanA) = Some []
   \<and> Channel_decrypt test_sodium chanA
        (snd (Channel_encrypt test_sodium chanA test_rnd []))
        (fst (Channel_encrypt test_sodium chanA test_rnd []))
       = Inl (BanError ''Invalid encrypted box'')"
proof -
  let ?n = "map test_rnd [0..<24]"
  have e: "Channel_encrypt test_sodium chanA test_rnd [] = (?n, test_mac ?n (encryptionKey chanA))"
    by (simp add: Channel_encrypt_def test_sodium_def Let_def)
  have 1: "length (test_mac ?n (encryptionKey chanA)) = 16"
    by (rule length_test_mac)
  have 2: "crypto_secretbox_open_easy test_sodium (test_mac ?n (encryptionKey chanA)) ?n
             (encryptionKey chanA) = Some []"
    by (simp add: test_sodium_def length_test_mac)
  have 3: "Channel_decrypt test_sodium chanA (test_mac ?n (encryptionKey chanA)) ?n
             = Inl (BanError ''Invalid encrypted box'')"
    by (simp add: Channel_decrypt_def test_sodium_def length_test_mac)
  show ?thesis
    unfolding e using secretbox_ok_test 1 2 3 by simp
qed

text \<open>
  C3, amended. With a secret box that opens what it sealed, \<open>Channel.decrypt\<close> on
  the box and nonce that \<open>Channel.encrypt\<close> made of a byte string \<open>c\<close> returns \<open>c\<close>
  when \<open>c\<close> is not empty, and throws the \<open>BanError\<close> \<open>Invalid encrypted box\<close> when \<open>c\<close>
  is empty.
\<close>

theorem decrypt_encrypt:
  assumes "secretbox_ok sod"
  shows "Channel_decrypt sod chan (snd (Channel_encrypt sod chan rnd c))
           (fst (Channel_encrypt sod chan rnd c))
         = (if c = [] then Inl (BanError ''Invalid encrypted box'') else Inr c)"
proof -
  let ?n = "map rnd [0..<crypto_secretbox_NONCEBYTES sod]"
  let ?box = "crypto_secretbox_easy sod c ?n (encryptionKey chan)"
  have e: "Channel_encrypt sod chan rnd c = (?n, ?box)"
    by (simp add: Channel_encrypt_def Let_def)
  have len: "length ?box = length c + crypto_secretbox_MACBYTES sod"
    and opn: "crypto_secretbox_open_easy sod ?box ?n (encryptionKey chan) = Some c"
    using assms by (simp_all add: secretbox_ok_def)
  show ?thesis
    unfolding e by (simp add: Channel_decrypt_def len opn)
qed

theorem decrypt_encrypt_witness:
  "secretbox_ok test_sodium
   \<and> Channel_decrypt test_sodium chanA
        (snd (Channel_encrypt test_sodium chanA test_rnd ''hello''))
        (fst (Channel_encrypt test_sodium chanA test_rnd ''hello''))
       = Inr ''hello''"
  using decrypt_encrypt[OF secretbox_ok_test, of chanA test_rnd "''hello''"] secretbox_ok_test
  by simp

section \<open>The leaves of the storage\<close>

lemma set_fold_Set_delete: "set (fold Set_delete ps ls) = set ls - set ps"
  by (induction ps arbitrary: ls) (auto simp: Set_delete_def)

lemma set_Set_add: "set (Set_add x xs) = insert x (set xs)"
  by (auto simp: Set_add_def)

lemma keys_ok_ran: "keys_ok d \<Longrightarrow> hash ` ran (messageByHash d) = dom (messageByHash d)"
  by (force simp: keys_ok_def ran_def dom_def image_iff)

lemma addMessage_storage_inv:
  assumes inv: "storage_inv d"
    and ps: "set (parents m) \<subseteq> dom (messageByHash d)"
  shows "storage_inv (Memory_addMessage m d)"
proof (cases "messageByHash d (hash m)")
  case (Some m')
  with inv show ?thesis by (simp add: Memory_addMessage_def)
next
  case None
  let ?f = "messageByHash d"
  let ?d' = "Memory_addMessage m d"
  from inv have k: "keys_ok d" and p: "parents_stored d" and l: "leaves_closure d"
    by (simp_all add: storage_inv_def)
  have f': "messageByHash ?d' = ?f(hash m \<mapsto> m)"
    and l': "set (leaves ?d') = insert (hash m) (set (leaves d) - set (parents m))"
    using None by (simp_all add: Memory_addMessage_def set_Set_add set_fold_Set_delete)
  have ran': "ran (messageByHash ?d') = insert m (ran ?f)"
    using None by (simp add: f')
  have dom': "dom (messageByHash ?d') = insert (hash m) (dom ?f)"
    by (simp add: f')
  have fresh: "hash m \<notin> dom ?f"
    using None by (simp add: dom_def)
  have k': "keys_ok ?d'"
    using k by (auto simp: keys_ok_def f')
  have p': "parents_stored ?d'"
    using p ps unfolding parents_stored_def ran' dom' by auto
  have old: "\<Union> (set ` parents ` ran ?f) \<subseteq> dom ?f"
    using p by (auto simp: parents_stored_def)
  have "hash ` ran (messageByHash ?d') - \<Union> (set ` parents ` ran (messageByHash ?d'))
      = insert (hash m) (dom ?f) - (set (parents m) \<union> \<Union> (set ` parents ` ran ?f))"
    unfolding ran' using keys_ok_ran[OF k] by simp
  also have "\<dots> = insert (hash m) ((dom ?f - \<Union> (set ` parents ` ran ?f)) - set (parents m))"
    using fresh ps old by auto
  also have "dom ?f - \<Union> (set ` parents ` ran ?f) = set (leaves d)"
    using l keys_ok_ran[OF k] by (simp add: leaves_closure_def)
  finally have "leaves_closure ?d'"
    using l' by (simp add: leaves_closure_def)
  with k' p' show ?thesis by (simp add: storage_inv_def)
qed

lemma receive_store_cases:
  "snd (receive sod cod chan now m d) = d \<or>
   (\<exists>c ps. those (Channel_getMessages d (parents m)) = Some ps \<and>
      snd (receive sod cod chan now m d) = Memory_addMessage (decrypted m c) d)"
  unfolding receive_def
  by (auto split: if_splits sum.splits option.splits prod.splits)

lemma those_all_defined:
  assumes "those (Channel_getMessages d hs) = Some ps"
  shows "set hs \<subseteq> dom (messageByHash d)"
  using those_map_Some[of "Memory_getMessage d" hs ps] assms
  by (auto simp: Channel_getMessages_def Memory_getMessages_def Memory_getMessage_def)

lemma receive_storage_inv:
  assumes "storage_inv d"
  shows "storage_inv (snd (receive sod cod chan now m d))"
proof -
  from receive_store_cases[of sod cod chan now m d]
  show ?thesis
  proof
    assume "snd (receive sod cod chan now m d) = d"
    with assms show ?thesis by simp
  next
    assume "\<exists>c ps. those (Channel_getMessages d (parents m)) = Some ps \<and>
      snd (receive sod cod chan now m d) = Memory_addMessage (decrypted m c) d"
    then obtain c ps where ps: "those (Channel_getMessages d (parents m)) = Some ps"
      and s: "snd (receive sod cod chan now m d) = Memory_addMessage (decrypted m c) d"
      by blast
    have "set (parents (decrypted m c)) \<subseteq> dom (messageByHash d)"
      using those_all_defined[OF ps] by (simp add: decrypted_def)
    with assms show ?thesis
      unfolding s by (rule addMessage_storage_inv)
  qed
qed

lemma Message_new_parents:
  "Message_new sod cod rnd opts = Inr m \<Longrightarrow> parents m = opt_parents opts"
  unfolding Message_new_def Let_def
  by (auto split: sum.splits if_splits)

lemma post_result_cases:
  "(\<exists>e. post sod cod chan rnd b ident ts d = (Inl e, d)) \<or>
   (\<exists>lvs c m. b \<noteq> Root \<and> those (Channel_getLeaves d) = Some lvs \<and>
      filterParents lvs \<noteq> [] \<and>
      signMessageBody sod cod ident b chan (map hash (filterParents lvs))
        (computeHeight (filterParents lvs)) (adjustTimestamp (filterParents lvs) ts) = Inr c \<and>
      checkJSONLimit (body_json b) (length (chain c)) = Inr () \<and>
      Message_new sod cod rnd
        \<lparr>opt_channel = Some chan, opt_channelId = None,
         opt_parents = map hash (filterParents lvs),
         opt_height = computeHeight (filterParents lvs),
         opt_nonce = None, opt_content = Some c, opt_encryptedContent = None\<rparr> = Inr m \<and>
      post sod cod chan rnd b ident ts d =
        (Inr (decrypted m c), Memory_addMessage (decrypted m c) d))"
  unfolding post_def Let_def
  by (auto split: if_splits sum.splits option.splits)

lemma post_store_cases:
  "snd (post sod cod chan rnd b ident ts d) = d \<or>
   (\<exists>lvs (m :: content option message) c. those (Channel_getLeaves d) = Some lvs \<and>
      parents m = map hash (filterParents lvs) \<and>
      snd (post sod cod chan rnd b ident ts d) = Memory_addMessage (decrypted m c) d)"
proof -
  from post_result_cases[of sod cod chan rnd b ident ts d]
  show ?thesis
  proof
    assume "\<exists>e. post sod cod chan rnd b ident ts d = (Inl e, d)"
    then show ?thesis by auto
  next
    assume "\<exists>lvs c m. b \<noteq> Root \<and> those (Channel_getLeaves d) = Some lvs \<and>
      filterParents lvs \<noteq> [] \<and>
      signMessageBody sod cod ident b chan (map hash (filterParents lvs))
        (computeHeight (filterParents lvs)) (adjustTimestamp (filterParents lvs) ts) = Inr c \<and>
      checkJSONLimit (body_json b) (length (chain c)) = Inr () \<and>
      Message_new sod cod rnd
        \<lparr>opt_channel = Some chan, opt_channelId = None,
         opt_parents = map hash (filterParents lvs),
         opt_height = computeHeight (filterParents lvs),
         opt_nonce = None, opt_content = Some c, opt_encryptedContent = None\<rparr> = Inr m \<and>
      post sod cod chan rnd b ident ts d =
        (Inr (decrypted m c), Memory_addMessage (decrypted m c) d)"
    then obtain lvs c m where lvs: "those (Channel_getLeaves d) = Some lvs"
      and new: "Message_new sod cod rnd
        \<lparr>opt_channel = Some chan, opt_channelId = None,
         opt_parents = map hash (filterParents lvs),
         opt_height = computeHeight (filterParents lvs),
         opt_nonce = None, opt_content = Some c, opt_encryptedContent = None\<rparr> = Inr m"
      and p: "post sod cod chan rnd b ident ts d =
        (Inr (decrypted m c), Memory_addMessage (decrypted m c) d)"
      by blast
    from Message_new_parents[OF new] have "parents m = map hash (filterParents lvs)"
      by simp
    with lvs p show ?thesis
      by (metis snd_conv)
  qed
qed

lemma leaves_resolved:
  assumes "keys_ok d" and "those (Channel_getLeaves d) = Some lvs"
  shows "hash ` set lvs \<subseteq> dom (messageByHash d)"
proof -
  let ?hs = "take MAX_LEAVES_COUNT (leaves d)"
  have "those (map (messageByHash d) ?hs) = Some lvs"
    using assms(2)
    by (simp add: Channel_getLeaves_def Memory_getLeaves_def take_map)
       (metis Memory_getMessage_def map_eq_conv)
  from those_map_Some[OF this]
  have lv: "lvs = map (\<lambda>h. the (messageByHash d h)) ?hs"
    and df: "\<forall>h\<in>set ?hs. messageByHash d h \<noteq> None"
    by simp_all
  show ?thesis
  proof
    fix x
    assume "x \<in> hash ` set lvs"
    with lv obtain h where h: "h \<in> set ?hs" "x = hash (the (messageByHash d h))"
      by auto
    with df obtain m where m: "messageByHash d h = Some m"
      by auto
    with assms(1) have "hash m = h"
      by (simp add: keys_ok_def)
    with h m show "x \<in> dom (messageByHash d)"
      by auto
  qed
qed

lemma post_storage_inv:
  assumes "storage_inv d"
  shows "storage_inv (snd (post sod cod chan rnd b ident ts d))"
proof -
  from post_store_cases[of sod cod chan rnd b ident ts d]
  show ?thesis
  proof
    assume "snd (post sod cod chan rnd b ident ts d) = d"
    with assms show ?thesis by simp
  next
    assume "\<exists>lvs (m :: content option message) c. those (Channel_getLeaves d) = Some lvs \<and>
      parents m = map hash (filterParents lvs) \<and>
      snd (post sod cod chan rnd b ident ts d) = Memory_addMessage (decrypted m c) d"
    then obtain lvs and m :: "content option message" and c
      where lvs: "those (Channel_getLeaves d) = Some lvs"
      and pm: "parents m = map hash (filterParents lvs)"
      and s: "snd (post sod cod chan rnd b ident ts d) = Memory_addMessage (decrypted m c) d"
      by blast
    from assms have "keys_ok d"
      by (simp add: storage_inv_def)
    from leaves_resolved[OF this lvs]
    have "set (parents (decrypted m c)) \<subseteq> dom (messageByHash d)"
      by (auto simp: decrypted_def pm filterParents_def Let_def)
    with assms show ?thesis
      unfolding s by (rule addMessage_storage_inv)
  qed
qed

lemma storage_inv_empty: "storage_inv empty_data"
  by (simp add: storage_inv_def keys_ok_def parents_stored_def leaves_closure_def empty_data_def)

lemma run_ops_storage_inv:
  "storage_inv d \<Longrightarrow> storage_inv (run_ops sod cod chan ops d)"
  unfolding run_ops_def
proof (induction ops arbitrary: d)
  case Nil
  then show ?case by simp
next
  case (Cons op ops)
  have "storage_inv (apply_op sod cod chan d op)"
    using Cons.prems by (cases op) (simp_all add: receive_storage_inv post_storage_inv)
  then show ?case
    using Cons.IH by simp
qed

lemma getLeaves_hashes:
  assumes "storage_inv d"
  shows "\<exists>ls. those (Memory_getLeaves d) = Some ls \<and> map hash ls = leaves d"
proof -
  from assms have k: "keys_ok d" and l: "leaves_closure d"
    by (simp_all add: storage_inv_def)
  have sub: "set (leaves d) \<subseteq> dom (messageByHash d)"
    using l keys_ok_ran[OF k] by (auto simp: leaves_closure_def)
  have "\<exists>ls. those (map (messageByHash d) hs) = Some ls \<and> map hash ls = hs"
    if "set hs \<subseteq> dom (messageByHash d)" for hs
    using that
  proof (induction hs)
    case Nil
    then show ?case by simp
  next
    case (Cons h hs)
    then obtain ls where ls: "those (map (messageByHash d) hs) = Some ls" "map hash ls = hs"
      by auto
    from Cons.prems obtain m where m: "messageByHash d h = Some m"
      by auto
    with k have "hash m = h"
      by (simp add: keys_ok_def)
    with ls m show ?case by simp
  qed
  from this[OF sub] show ?thesis
    by (simp add: Memory_getLeaves_def) (metis Memory_getMessage_def map_eq_conv)
qed

lemma those_map_Some_eq: "those xs = Some ls \<Longrightarrow> xs = map Some ls"
  by (induction xs arbitrary: ls) (auto split: option.splits)

lemma addMessage_ran:
  "messageByHash d (hash m) = None \<Longrightarrow>
     ran (messageByHash (Memory_addMessage m d)) = insert m (ran (messageByHash d))"
  by (simp add: Memory_addMessage_def)

lemma addMessage_stored:
  "Memory_hasMessage d (hash m) \<Longrightarrow> Memory_addMessage m d = d"
  by (simp add: Memory_addMessage_def Memory_hasMessage_def)

lemma receive_not_accepted_unchanged:
  "fst (receive sod cod chan now m d) \<noteq> Inr True \<Longrightarrow> snd (receive sod cod chan now m d) = d"
  unfolding receive_def
  by (auto split: if_splits sum.splits option.splits prod.splits)

lemma abbreviate_decrypted: "abbreviate (decrypted m c) = abbreviate m"
  by (simp add: abbreviate_def decrypted_def)

lemma receive_abbreviated:
  "abbreviate ` ran (messageByHash (snd (receive sod cod chan now m d))) =
     abbreviate ` ran (messageByHash d) \<union> set (accepted_op sod cod chan d (Receive now m))"
proof (cases "fst (receive sod cod chan now m d) = Inr True")
  case True
  then have "receive sod cod chan now m d = (Inr True, snd (receive sod cod chan now m d))"
    by (metis prod.collapse)
  then obtain c where fresh: "\<not> Memory_hasMessage d (hash m)"
    and s: "snd (receive sod cod chan now m d) = Memory_addMessage (decrypted m c) d"
    by (rule receive_accepted_cases)
  from fresh have "messageByHash d (hash (decrypted m c)) = None"
    by (simp add: Memory_hasMessage_def decrypted_def)
  from addMessage_ran[OF this] True show ?thesis
    by (simp add: s abbreviate_decrypted)
next
  case False
  with receive_not_accepted_unchanged[OF False] show ?thesis
    by simp
qed

lemma post_abbreviated:
  assumes "fresh_post sod cod chan d (Post rnd b ident ts)"
  shows "abbreviate ` ran (messageByHash (snd (post sod cod chan rnd b ident ts d))) =
     abbreviate ` ran (messageByHash d) \<union> set (accepted_op sod cod chan d (Post rnd b ident ts))"
proof (cases "post sod cod chan rnd b ident ts d")
  case (Pair res d')
  show ?thesis
  proof (cases res)
    case (Inl e)
    with Pair post_result_cases[of sod cod chan rnd b ident ts d] have "d' = d"
      by auto
    with Pair Inl show ?thesis by simp
  next
    case (Inr m)
    with Pair post_result_cases[of sod cod chan rnd b ident ts d]
    have d': "d' = Memory_addMessage m d"
      by auto
    from assms Pair Inr have "messageByHash d (hash m) = None"
      by (simp add: Memory_hasMessage_def)
    from addMessage_ran[OF this] Pair Inr d' show ?thesis
      by simp
  qed
qed

lemma run_ops_abbreviated:
  "fresh_posts sod cod chan ops d \<Longrightarrow>
     abbreviate ` ran (messageByHash (run_ops sod cod chan ops d)) =
       abbreviate ` ran (messageByHash d) \<union> set (accepted_run sod cod chan ops d)"
proof (induction ops arbitrary: d)
  case Nil
  then show ?case by (simp add: run_ops_def)
next
  case (Cons op ops)
  from Cons.prems have f: "fresh_post sod cod chan d op"
    and fs: "fresh_posts sod cod chan ops (apply_op sod cod chan d op)"
    by simp_all
  have step: "abbreviate ` ran (messageByHash (apply_op sod cod chan d op)) =
      abbreviate ` ran (messageByHash d) \<union> set (accepted_op sod cod chan d op)"
    using f by (cases op) (simp_all only: apply_op.simps receive_abbreviated post_abbreviated)
  have "run_ops sod cod chan (op # ops) d = run_ops sod cod chan ops (apply_op sod cod chan d op)"
    by (simp add: run_ops_def)
  with Cons.IH[OF fs] step show ?case
    by (simp add: Un_assoc)
qed

lemma closure_abbreviated:
  assumes "leaves_closure d"
  shows "set (leaves d) =
           fst ` abbreviate ` ran (messageByHash d)
             - \<Union> (set ` snd ` abbreviate ` ran (messageByHash d))"
proof -
  have "fst ` abbreviate ` ran (messageByHash d) = hash ` ran (messageByHash d)"
    "snd ` abbreviate ` ran (messageByHash d) = parents ` ran (messageByHash d)"
    by (simp_all add: image_image abbreviate_def)
  with assms show ?thesis
    by (simp add: leaves_closure_def)
qed

lemma getLeaves_stored:
  assumes "those (Memory_getLeaves d) = Some ls"
  shows "set ls \<subseteq> ran (messageByHash d)"
proof -
  have "those (map (messageByHash d) (leaves d)) = Some ls"
    using assms
    by (simp add: Memory_getLeaves_def) (metis Memory_getMessage_def map_eq_conv)
  from those_map_Some[OF this]
  have "ls = map (\<lambda>h. the (messageByHash d h)) (leaves d)"
    and "\<forall>h\<in>set (leaves d). messageByHash d h \<noteq> None"
    by simp_all
  then show ?thesis
    by (auto simp: ran_def)
qed

text \<open>
  C8. Take any sequence of \<open>receive\<close> and \<open>post\<close> calls on a channel that starts
  empty, whatever each call returns or throws, in which the hash of each message
  that \<open>post\<close> returns is new to the storage. Afterwards the storage holds
  exactly the accepted messages (those for which \<open>receive\<close> returned \<open>true\<close> and
  those that \<open>post\<close> returned), and the leaf set is the set of the hashes of the
  accepted messages minus the hashes that occur in the parents of an accepted
  message. \<open>getLeaves\<close> is a read: \<open>Memory.getLeaves\<close> returns the accepted
  messages of exactly these hashes, \<open>Channel.getLeaves\<close> the first 128 of them.
  \<open>addMessage\<close> adds a message whose hash is new and whose parents are stored
  to the stored messages, and the leaf set is again the set of the stored hashes
  minus the hashes that occur in the parents of a stored message.
\<close>

theorem leaves_closure_run:
  assumes "fresh_posts sod cod chan ops empty_data"
  shows "set (leaves (run_ops sod cod chan ops empty_data)) =
           fst ` set (accepted_run sod cod chan ops empty_data)
             - \<Union> (set ` snd ` set (accepted_run sod cod chan ops empty_data))
       \<and> abbreviate ` ran (messageByHash (run_ops sod cod chan ops empty_data)) =
           set (accepted_run sod cod chan ops empty_data)
       \<and> (\<exists>ls. those (Memory_getLeaves (run_ops sod cod chan ops empty_data)) = Some ls \<and>
              map hash ls = leaves (run_ops sod cod chan ops empty_data) \<and>
              abbreviate ` set ls \<subseteq> set (accepted_run sod cod chan ops empty_data) \<and>
              Channel_getLeaves (run_ops sod cod chan ops empty_data) = take 128 (map Some ls))
       \<and> (storage_inv d \<and> set (parents m) \<subseteq> dom (messageByHash d) \<and>
          \<not> Memory_hasMessage d (hash m) \<longrightarrow>
            storage_inv (Memory_addMessage m d) \<and>
            ran (messageByHash (Memory_addMessage m d)) = insert m (ran (messageByHash d)) \<and>
            set (leaves (Memory_addMessage m d)) =
              hash ` ran (messageByHash (Memory_addMessage m d))
                - \<Union> (set ` parents ` ran (messageByHash (Memory_addMessage m d))))"
proof -
  let ?d = "run_ops sod cod chan ops empty_data"
  let ?acc = "set (accepted_run sod cod chan ops empty_data)"
  have inv: "storage_inv ?d"
    using storage_inv_empty by (rule run_ops_storage_inv)
  have stored: "abbreviate ` ran (messageByHash ?d) = ?acc"
    using run_ops_abbreviated[OF assms] by (simp add: empty_data_def)
  from inv have "leaves_closure ?d"
    by (simp add: storage_inv_def)
  from closure_abbreviated[OF this]
  have 1: "set (leaves ?d) = fst ` ?acc - \<Union> (set ` snd ` ?acc)"
    unfolding stored .
  from getLeaves_hashes[OF inv] obtain ls where ls: "those (Memory_getLeaves ?d) = Some ls"
    "map hash ls = leaves ?d"
    by blast
  from getLeaves_stored[OF ls(1)] have "abbreviate ` set ls \<subseteq> ?acc"
    unfolding stored[symmetric] by blast
  moreover have "Memory_getLeaves ?d = map Some ls"
    using ls(1) by (simp add: those_map_Some_eq)
  then have "Channel_getLeaves ?d = take 128 (map Some ls)"
    by (simp add: Channel_getLeaves_def MAX_LEAVES_COUNT_def)
  ultimately have 3: "\<exists>ls. those (Memory_getLeaves ?d) = Some ls \<and> map hash ls = leaves ?d \<and>
      abbreviate ` set ls \<subseteq> ?acc \<and> Channel_getLeaves ?d = take 128 (map Some ls)"
    using ls by blast
  have 4: "storage_inv (Memory_addMessage m d) \<and>
            ran (messageByHash (Memory_addMessage m d)) = insert m (ran (messageByHash d)) \<and>
            set (leaves (Memory_addMessage m d)) =
              hash ` ran (messageByHash (Memory_addMessage m d))
                - \<Union> (set ` parents ` ran (messageByHash (Memory_addMessage m d)))"
    if a: "storage_inv d \<and> set (parents m) \<subseteq> dom (messageByHash d) \<and>
          \<not> Memory_hasMessage d (hash m)"
  proof -
    from a have s: "storage_inv (Memory_addMessage m d)"
      by (simp add: addMessage_storage_inv)
    from a have "messageByHash d (hash m) = None"
      by (simp add: Memory_hasMessage_def)
    from addMessage_ran[OF this] s show ?thesis
      by (simp add: storage_inv_def leaves_closure_def)
  qed
  from 1 stored 3 4 show ?thesis
    by blast
qed

lemma run_one_receive:
  "run_ops test_sodium test_codec chanA [Receive 20 msg_root1] empty_data = store1"
  by (simp add: run_ops_def receive_root1_empty)

lemma run_two_receives:
  "run_ops test_sodium test_codec chanA [Receive 20 msg_root1, Receive 20 msg_child] empty_data
     = store2"
  by (simp add: run_ops_def receive_root1_empty receive_child_store1)

lemma addMessage_child_store1:
  "Memory_addMessage (stored_child) store1 = store2"
  by (simp add: Memory_addMessage_def Set_add_def Set_delete_def crdt_key_def store1_def
      store2_def test_message_def stored_root1_def stored_child_def hash_child_def hash_root1_def)

lemma post_store2:
  "post test_sodium test_codec chanA test_rnd (Json ''{}'') identA (Num 15) store2
     = (Inr stored_posted, store4)"
  by (simp add: post_def Channel_getLeaves_def Memory_getLeaves_def
      Channel_getMessageCount_def Memory_getMessageCount_def adjustTimestamp_def
      signMessageBody_def identA_def Message_new_def checkId_def checkHash_def Let_def
      receive_defs test_defs const_defs test_nonce test_mac_def test_content_encode_def
      stored_posted_def store4_def content_posted_def hash_posted_def)

lemma run_test_ops:
  "run_ops test_sodium test_codec chanA test_ops empty_data = store4"
  by (simp add: run_ops_def test_ops_def receive_root1_empty receive_wire_child_store1 post_store2)

lemma accepted_test_ops:
  "accepted_run test_sodium test_codec chanA test_ops empty_data =
     [(hash_root1, []), (hash_child, [hash_root1]), (hash_posted, [hash_child])]"
  by (simp add: test_ops_def receive_root1_empty receive_wire_child_store1 post_store2
      abbreviate_def)
     (simp add: msg_root1_def wire_def msg_child_def stored_posted_def test_message_def)

lemma fresh_test_ops: "fresh_posts test_sodium test_codec chanA test_ops empty_data"
  by (simp add: test_ops_def receive_root1_empty receive_wire_child_store1 post_store2)
     (simp add: Memory_hasMessage_def store2_def stored_posted_def test_message_def
        hash_posted_def hash_root1_def hash_child_def)

theorem leaves_closure_run_witness:
  "fresh_posts test_sodium test_codec chanA test_ops empty_data
   \<and> run_ops test_sodium test_codec chanA test_ops empty_data = store4
   \<and> accepted_run test_sodium test_codec chanA test_ops empty_data =
       [(hash_root1, []), (hash_child, [hash_root1]), (hash_posted, [hash_child])]
   \<and> leaves store4 = [hash_posted]
   \<and> set (leaves store4) =
       fst ` set [(hash_root1, []), (hash_child, [hash_root1]), (hash_posted, [hash_child])]
         - \<Union> (set ` snd `
              set [(hash_root1, []), (hash_child, [hash_root1]), (hash_posted, [hash_child])])
   \<and> abbreviate ` ran (messageByHash store4) =
       set [(hash_root1, []), (hash_child, [hash_root1]), (hash_posted, [hash_child])]
   \<and> (\<exists>ls. those (Memory_getLeaves store4) = Some ls \<and> map hash ls = leaves store4 \<and>
          Channel_getLeaves store4 = take 128 (map Some ls))
   \<and> storage_inv store1
   \<and> set (parents stored_child) \<subseteq> dom (messageByHash store1)
   \<and> \<not> Memory_hasMessage store1 (hash stored_child)
   \<and> Memory_addMessage stored_child store1 = store2
   \<and> storage_inv store2
   \<and> ran (messageByHash store2) = insert stored_child (ran (messageByHash store1))"
proof -
  note th = leaves_closure_run[OF fresh_test_ops, unfolded run_test_ops accepted_test_ops]
  have l: "leaves store4 = [hash_posted]"
    by (simp add: store4_def)
  have 1: "set (leaves store4) =
       fst ` set [(hash_root1, []), (hash_child, [hash_root1]), (hash_posted, [hash_child])]
         - \<Union> (set ` snd `
              set [(hash_root1, []), (hash_child, [hash_root1]), (hash_posted, [hash_child])])"
    by (rule th[THEN conjunct1])
  have 2: "abbreviate ` ran (messageByHash store4) =
       set [(hash_root1, []), (hash_child, [hash_root1]), (hash_posted, [hash_child])]"
    by (rule th[THEN conjunct2, THEN conjunct1])
  have 3: "\<exists>ls. those (Memory_getLeaves store4) = Some ls \<and> map hash ls = leaves store4 \<and>
          Channel_getLeaves store4 = take 128 (map Some ls)"
    using th[THEN conjunct2, THEN conjunct2, THEN conjunct1] by blast
  have s1: "storage_inv store1"
    using run_ops_storage_inv[OF storage_inv_empty, of test_sodium test_codec chanA
        "[Receive 20 msg_root1]"]
    unfolding run_one_receive .
  have p: "set (parents stored_child) \<subseteq> dom (messageByHash store1)"
    "\<not> Memory_hasMessage store1 (hash stored_child)"
    by (simp_all add: test_message_def stored_root1_def stored_child_def store1_def
        Memory_hasMessage_def hash_root1_def hash_child_def)
  note add = th[THEN conjunct2, THEN conjunct2, THEN conjunct2, rule_format,
      of store1 stored_child, unfolded addMessage_child_store1]
  have s2: "storage_inv store2"
    "ran (messageByHash store2) = insert stored_child (ran (messageByHash store1))"
    using add s1 p by simp_all
  show ?thesis
    by (intro conjI fresh_test_ops run_test_ops accepted_test_ops l 1 2 3 s1 p
        addMessage_child_store1 s2)
qed

section \<open>\<open>Channel.receiveBulk\<close>\<close>

lemma verify_chain_length:
  assumes "Message_verify sod cod chan now m = Inr (ok, c)"
  shows "length (chain c) \<le> MAX_LENGTH"
proof -
  from assms obtain links where l: "Message_chain sod c = Inr links"
    by (auto simp: Message_verify_def split: sum.splits option.splits)
  then obtain ls where ls: "map_throw (Link_new sod) (chain c) = Inr ls" "Chain_new ls = Inr links"
    by (auto simp: Message_chain_def split: sum.splits)
  from ls(1) have "ls = chain c"
    by (rule map_throw_Link_new)
  with ls(2) show ?thesis
    by (auto simp: Chain_new_def split: if_splits)
qed

lemma checkJSONLimit_short_chain:
  "n \<le> MAX_LENGTH \<Longrightarrow> checkJSONLimit j n \<noteq> Inl (Error r)"
  by (auto simp: checkJSONLimit_def jsonLimit_def MAX_LENGTH_def split: sum.splits)

lemma receive_no_plain_error:
  assumes "\<forall>r. Message_verify sod cod chan now m \<noteq> Inl (Error r)"
  shows "fst (receive sod cod chan now m d) \<noteq> Inl (Error r)"
proof (cases "Message_verify sod cod chan now m")
  case (Inl e)
  with assms obtain b where "e = BanError b"
    by (cases e) auto
  with Inl show ?thesis
    by (simp add: receive_def)
next
  case (Inr okc)
  obtain ok c where okc: "okc = (ok, c)"
    by (cases okc)
  from verify_chain_length[of sod cod chan now m ok c] Inr okc
  have "checkJSONLimit (body_json (body c)) (length (chain c)) \<noteq> Inl (Error r)"
    by (intro checkJSONLimit_short_chain) simp
  with Inr okc show ?thesis
    by (auto simp: receive_def split: option.splits sum.splits)
qed

lemma receive_each_unexpected:
  assumes "\<forall>m\<in>set ms. \<forall>r. Message_verify sod cod chan now m \<noteq> Inl (Error r)"
    and "\<exists>m\<in>set ms. hash m \<notin> set expected"
  shows "isBanError (fst (receive_each sod cod chan now expected ms delta d))"
  using assms
proof (induction ms arbitrary: delta d)
  case Nil
  then show ?case by simp
next
  case (Cons m ms)
  show ?case
  proof (cases "hash m \<in> set expected")
    case False
    then show ?thesis by simp
  next
    case True
    with Cons.prems have rest: "\<exists>m\<in>set ms. hash m \<notin> set expected"
      by auto
    obtain res d' where r: "receive sod cod chan now m d = (res, d')"
      by (cases "receive sod cod chan now m d")
    show ?thesis
    proof (cases res)
      case (Inl e)
      from Cons.prems(1) have "\<forall>r. Message_verify sod cod chan now m \<noteq> Inl (Error r)"
        by simp
      from receive_no_plain_error[OF this, of d] r Inl obtain b where "e = BanError b"
        by (cases e) auto
      with True r Inl show ?thesis by simp
    next
      case (Inr b)
      from Cons.IH[of "if b then delta + 1 else delta" d'] Cons.prems(1) rest
      have "isBanError (fst (receive_each sod cod chan now expected ms
              (if b then delta + 1 else delta) d'))"
        by simp
      with True r Inr show ?thesis by simp
    qed
  qed
qed

lemma receive_each_throws:
  assumes "\<exists>m\<in>set ms. hash m \<notin> set expected"
  shows "\<exists>e. fst (receive_each sod cod chan now expected ms delta d) = Inl e"
  using assms
proof (induction ms arbitrary: delta d)
  case Nil
  then show ?case by simp
next
  case (Cons m ms)
  show ?case
  proof (cases "hash m \<in> set expected")
    case False
    then show ?thesis by simp
  next
    case True
    with Cons.prems have rest: "\<exists>m\<in>set ms. hash m \<notin> set expected"
      by auto
    obtain res d' where r: "receive sod cod chan now m d = (res, d')"
      by (cases "receive sod cod chan now m d")
    show ?thesis
    proof (cases res)
      case (Inl e)
      with True r show ?thesis by simp
    next
      case (Inr b)
      from Cons.IH[OF rest, of "if b then delta + 1 else delta" d']
      show ?thesis
        using True r Inr by simp
    qed
  qed
qed

lemma constructed_long:
  "Message_new test_sodium test_codec test_rnd (test_options [hash_root1] 1 content_long)
     = Inr msg_long"
  by (simp add: Message_new_defs test_sodium_def chanA_def test_nonce msg_long_def
      hash_root1_def)
     (simp add: codec_defs content_long_def hash_long_def hash_root1_def test_link_def)

lemma deserialized_long:
  "Message_new test_sodium test_codec test_rnd (wire_options msg_long) = Inr (wire msg_long)"
  by (simp add: Message_new_def wire_options_def wire_def msg_long_def checkId_def
      checkHash_def ID_SIZE_def HASH_SIZE_def Let_def test_message_def test_sodium_def chanA_def
      hash_root1_def)
     (simp add: codec_defs content_long_def hash_long_def hash_root1_def test_link_def)

lemma decrypt_wire_long:
  "Message_decrypt test_sodium test_codec chanA (wire msg_long) = Inr content_long"
  by (simp add: Message_decrypt_def test_defs wire_defs msg_long_def)

lemma verify_wire_long:
  "Message_verify test_sodium test_codec chanA 20 (wire msg_long)
     = Inl (Error ''Chain length overflow'')"
proof -
  have "3 < length (chain content_long)"
    by (simp add: content_long_def signed_content_def)
  moreover have "map_throw (Link_new test_sodium) (chain content_long)
     = Inr [test_link, test_link, test_link, test_link]"
    by (simp add: content_long_def signed_content_def Link_new_def test_link_def
        test_sodium_def MAX_DISPLAY_NAME_LENGTH_def)
  ultimately show ?thesis
    using decrypt_wire_long by (intro verify_long_chain)
qed

lemma fresh_long: "\<not> Memory_hasMessage store1 (hash (wire msg_long))"
  by (simp add: Memory_hasMessage_def wire_def msg_long_def test_message_def store1_def
      hash_long_def hash_root1_def)

lemma hashes_long_response:
  "hash (wire msg_long) \<in> set [hash_long]" "hash (wire msg_root2) \<notin> set [hash_long]"
  by (simp_all add: wire_def msg_long_def msg_root2_def test_message_def hash_long_def
      hash_root2_def)

lemma receiveBulk_long_response:
  "receiveBulk test_sodium test_codec chanA 20 list_remote [hash_long]
     [\<lparr>response_messages = [wire msg_long, wire msg_root2], response_forwardIndex = 1\<rparr>] store1
     = (Inl (Error ''Chain length overflow''), [], store1)"
proof -
  have "receive test_sodium test_codec chanA 20 (wire msg_long) store1
          = (Inl (Error ''Chain length overflow''), store1)"
    using fresh_long verify_wire_long by (rule receive_verify_throws)
  then show ?thesis
    unfolding receiveBulk_def using hashes_long_response(1)
    by (subst receiveBulk_loop.simps) simp
qed

text \<open>
  C10, as stated, fails: the remote is asked for \<open>hash_long\<close> and answers with
  \<open>msg_long\<close>, whose chain has four links, followed by \<open>msg_root2\<close>, which was
  not asked for. \<open>receive\<close> throws the plain \<open>Error\<close> of the \<open>Chain\<close> constructor
  for the first message, and that \<open>Error\<close>, not a \<open>BanError\<close>, is what the call
  throws.
\<close>

theorem receiveBulk_plain_error:
  "Message_new test_sodium test_codec test_rnd (test_options [hash_root1] 1 content_long)
     = Inr msg_long
   \<and> Message_new test_sodium test_codec test_rnd (wire_options msg_long) = Inr (wire msg_long)
   \<and> Message_decrypt test_sodium test_codec chanA (wire msg_long) = Inr content_long
   \<and> length (chain content_long) = 4
   \<and> hash (wire msg_long) \<in> set [hash_long]
   \<and> hash (wire msg_root2) \<notin> set [hash_long]
   \<and> receiveBulk test_sodium test_codec chanA 20 list_remote [hash_long]
        [\<lparr>response_messages = [wire msg_long, wire msg_root2], response_forwardIndex = 1\<rparr>]
        store1
       = (Inl (Error ''Chain length overflow''), [], store1)
   \<and> \<not> isBanError (fst (receiveBulk test_sodium test_codec chanA 20 list_remote [hash_long]
        [\<lparr>response_messages = [wire msg_long, wire msg_root2], response_forwardIndex = 1\<rparr>]
        store1))"
proof -
  have 1: "length (chain content_long) = 4"
    by (simp add: content_long_def signed_content_def)
  have 2: "\<not> isBanError (fst (receiveBulk test_sodium test_codec chanA 20 list_remote [hash_long]
        [\<lparr>response_messages = [wire msg_long, wire msg_root2], response_forwardIndex = 1\<rparr>]
        store1))"
    by (simp add: receiveBulk_long_response)
  show ?thesis
    by (intro conjI constructed_long deserialized_long decrypt_wire_long 1 hashes_long_response
        receiveBulk_long_response 2)
qed

text \<open>
  C10, amended. In the loop of \<open>Channel.receiveBulk\<close>, while hashes remain: a
  response that reports a \<open>forwardIndex\<close> of zero or less makes the call throw the
  \<open>BanError\<close> "Failed to make progress". A response that holds a message whose
  hash was not asked for makes the call throw; what it throws is a \<open>BanError\<close>
  when for no message of the response \<open>Message.verify\<close> throws a plain \<open>Error\<close>.
  In these cases the remote is not asked again. When the first message of a
  response was asked for and is not stored, and \<open>Message.verify\<close> throws for it,
  the call throws the same, and the storage stays as it was.
\<close>

theorem receiveBulk_bans:
  "(hashes \<noteq> [] \<and> rbulk r hashes = (Inr resp, r') \<and> response_forwardIndex resp \<le> 0 \<longrightarrow>
      receiveBulk_loop sod cod chan now rbulk expected hashes delta r d =
        (Inl (BanError ''Failed to make progress''), r', d))
   \<and> (hashes \<noteq> [] \<and> rbulk r hashes = (Inr resp, r') \<and> 0 < response_forwardIndex resp \<and>
      (\<exists>m\<in>set (response_messages resp). hash m \<notin> set expected) \<and>
      (\<forall>m\<in>set (response_messages resp). \<forall>e. Message_verify sod cod chan now m \<noteq> Inl (Error e))
      \<longrightarrow> isBanError (fst (receiveBulk_loop sod cod chan now rbulk expected hashes delta r d)) \<and>
          fst (snd (receiveBulk_loop sod cod chan now rbulk expected hashes delta r d)) = r')
   \<and> (hashes \<noteq> [] \<and> rbulk r hashes = (Inr resp, r') \<and> 0 < response_forwardIndex resp \<and>
      (\<exists>m\<in>set (response_messages resp). hash m \<notin> set expected)
      \<longrightarrow> (\<exists>e. fst (receiveBulk_loop sod cod chan now rbulk expected hashes delta r d) = Inl e) \<and>
          fst (snd (receiveBulk_loop sod cod chan now rbulk expected hashes delta r d)) = r')
   \<and> (hashes \<noteq> [] \<and> rbulk r hashes = (Inr resp, r') \<and> 0 < response_forwardIndex resp \<and>
      response_messages resp = m # ms \<and> hash m \<in> set expected \<and>
      \<not> Memory_hasMessage d (hash m) \<and> Message_verify sod cod chan now m = Inl e
      \<longrightarrow> receiveBulk_loop sod cod chan now rbulk expected hashes delta r d = (Inl e, r', d))"
proof (intro conjI impI)
  assume "hashes \<noteq> [] \<and> rbulk r hashes = (Inr resp, r') \<and> response_forwardIndex resp \<le> 0"
  then show "receiveBulk_loop sod cod chan now rbulk expected hashes delta r d =
        (Inl (BanError ''Failed to make progress''), r', d)"
    by (subst receiveBulk_loop.simps) simp
next
  assume a: "hashes \<noteq> [] \<and> rbulk r hashes = (Inr resp, r') \<and> 0 < response_forwardIndex resp \<and>
      (\<exists>m\<in>set (response_messages resp). hash m \<notin> set expected) \<and>
      (\<forall>m\<in>set (response_messages resp). \<forall>e. Message_verify sod cod chan now m \<noteq> Inl (Error e))"
  then have ban: "isBanError (fst (receive_each sod cod chan now expected
                     (response_messages resp) delta d))"
    by (intro receive_each_unexpected) auto
  obtain res d' where e: "receive_each sod cod chan now expected (response_messages resp) delta d
      = (res, d')"
    by (cases "receive_each sod cod chan now expected (response_messages resp) delta d")
  with ban obtain b where res: "res = Inl (BanError b)"
    by (cases res rule: isBanError.cases) auto
  have "receiveBulk_loop sod cod chan now rbulk expected hashes delta r d = (Inl (BanError b), r', d')"
    using a e res by (subst receiveBulk_loop.simps) simp
  then show "isBanError (fst (receiveBulk_loop sod cod chan now rbulk expected hashes delta r d))"
    and "fst (snd (receiveBulk_loop sod cod chan now rbulk expected hashes delta r d)) = r'"
    by simp_all
next
  assume a: "hashes \<noteq> [] \<and> rbulk r hashes = (Inr resp, r') \<and> 0 < response_forwardIndex resp \<and>
      (\<exists>m\<in>set (response_messages resp). hash m \<notin> set expected)"
  then obtain e where "fst (receive_each sod cod chan now expected
                     (response_messages resp) delta d) = Inl e"
    using receive_each_throws by blast
  then obtain d' where e: "receive_each sod cod chan now expected (response_messages resp) delta d
      = (Inl e, d')"
    by (cases "receive_each sod cod chan now expected (response_messages resp) delta d") simp
  have "receiveBulk_loop sod cod chan now rbulk expected hashes delta r d = (Inl e, r', d')"
    using a e by (subst receiveBulk_loop.simps) simp
  then show "\<exists>e. fst (receiveBulk_loop sod cod chan now rbulk expected hashes delta r d) = Inl e"
    and "fst (snd (receiveBulk_loop sod cod chan now rbulk expected hashes delta r d)) = r'"
    by simp_all
next
  assume a: "hashes \<noteq> [] \<and> rbulk r hashes = (Inr resp, r') \<and> 0 < response_forwardIndex resp \<and>
      response_messages resp = m # ms \<and> hash m \<in> set expected \<and>
      \<not> Memory_hasMessage d (hash m) \<and> Message_verify sod cod chan now m = Inl e"
  then have "receive sod cod chan now m d = (Inl e, d)"
    by (simp add: receive_verify_throws)
  with a show "receiveBulk_loop sod cod chan now rbulk expected hashes delta r d = (Inl e, r', d)"
    by (subst receiveBulk_loop.simps) simp
qed

lemma verify_wire_root2:
  "Message_verify test_sodium test_codec chanA 20 (wire msg_root2) = Inr (True, content_root2)"
  by (simp add: receive_defs test_defs const_defs wire_defs)

theorem receiveBulk_bans_witness:
  "receiveBulk test_sodium test_codec chanA 20 list_remote [hash_child] [] store1 =
     (Inl (BanError ''Failed to make progress''), [], store1)
   \<and> isBanError (fst (receiveBulk test_sodium test_codec chanA 20 list_remote [hash_child]
        [\<lparr>response_messages = [wire msg_root2], response_forwardIndex = 1\<rparr>] store1))
   \<and> fst (snd (receiveBulk test_sodium test_codec chanA 20 list_remote [hash_child]
        [\<lparr>response_messages = [wire msg_root2], response_forwardIndex = 1\<rparr>] store1)) = []
   \<and> (\<exists>e. fst (receiveBulk test_sodium test_codec chanA 20 list_remote [hash_long]
        [\<lparr>response_messages = [wire msg_long, wire msg_root2], response_forwardIndex = 1\<rparr>]
        store1) = Inl e)
   \<and> receiveBulk test_sodium test_codec chanA 20 list_remote [hash_long]
        [\<lparr>response_messages = [wire msg_long, wire msg_root2], response_forwardIndex = 1\<rparr>]
        store1
       = (Inl (Error ''Chain length overflow''), [], store1)
   \<and> receiveBulk test_sodium test_codec chanA 20 list_remote [hash_child]
        [\<lparr>response_messages = [wire msg_child], response_forwardIndex = 1\<rparr>] store1 =
     (Inr 1, [], store2)"
proof -
  note th = receiveBulk_bans[where sod = test_sodium and cod = test_codec and chan = chanA
      and now = 20 and rbulk = list_remote and delta = 0 and d = store1]
  note stalled = th[THEN conjunct1, rule_format]
  note unexpected = th[THEN conjunct2, THEN conjunct1, rule_format]
  note throws = th[THEN conjunct2, THEN conjunct2, THEN conjunct1, rule_format]
  note passed_on = th[THEN conjunct2, THEN conjunct2, THEN conjunct2, rule_format]
  have 1: "receiveBulk test_sodium test_codec chanA 20 list_remote [hash_child] [] store1 =
     (Inl (BanError ''Failed to make progress''), [], store1)"
    unfolding receiveBulk_def
    by (rule stalled[where resp = "\<lparr>response_messages = [], response_forwardIndex = 0\<rparr>"]) simp
  have ne: "hash (wire msg_root2) \<notin> set [hash_child]"
    by (simp add: wire_def msg_root2_def test_message_def hash_root2_def hash_child_def)
  have 2: "isBanError (fst (receiveBulk test_sodium test_codec chanA 20 list_remote [hash_child]
        [\<lparr>response_messages = [wire msg_root2], response_forwardIndex = 1\<rparr>] store1))
     \<and> fst (snd (receiveBulk test_sodium test_codec chanA 20 list_remote [hash_child]
        [\<lparr>response_messages = [wire msg_root2], response_forwardIndex = 1\<rparr>] store1)) = []"
    unfolding receiveBulk_def
    using ne verify_wire_root2
    by (intro unexpected[where resp = "\<lparr>response_messages = [wire msg_root2],
          response_forwardIndex = 1\<rparr>"])
       simp
  have 3: "(\<exists>e. fst (receiveBulk test_sodium test_codec chanA 20 list_remote [hash_long]
        [\<lparr>response_messages = [wire msg_long, wire msg_root2], response_forwardIndex = 1\<rparr>]
        store1) = Inl e)
     \<and> fst (snd (receiveBulk test_sodium test_codec chanA 20 list_remote [hash_long]
        [\<lparr>response_messages = [wire msg_long, wire msg_root2], response_forwardIndex = 1\<rparr>]
        store1)) = []"
    unfolding receiveBulk_def
    using hashes_long_response(2)
    by (intro throws[where resp = "\<lparr>response_messages = [wire msg_long, wire msg_root2],
          response_forwardIndex = 1\<rparr>"])
       simp
  have 4: "receiveBulk test_sodium test_codec chanA 20 list_remote [hash_long]
        [\<lparr>response_messages = [wire msg_long, wire msg_root2], response_forwardIndex = 1\<rparr>]
        store1
       = (Inl (Error ''Chain length overflow''), [], store1)"
    unfolding receiveBulk_def
    using hashes_long_response(1) fresh_long verify_wire_long
    by (intro passed_on[where resp = "\<lparr>response_messages = [wire msg_long, wire msg_root2],
          response_forwardIndex = 1\<rparr>" and m = "wire msg_long" and ms = "[wire msg_root2]"])
       simp
  have in_exp: "hash (wire msg_child) \<in> set [hash_child]"
    by (simp add: wire_def msg_child_def test_message_def)
  have 5: "receiveBulk test_sodium test_codec chanA 20 list_remote [hash_child]
        [\<lparr>response_messages = [wire msg_child], response_forwardIndex = 1\<rparr>] store1 =
     (Inr 1, [], store2)"
    unfolding receiveBulk_def
    using in_exp receive_wire_child_store1
    by (subst receiveBulk_loop.simps, subst receiveBulk_loop.simps) simp
  show ?thesis
    by (intro conjI 1 2[THEN conjunct1] 2[THEN conjunct2] 3[THEN conjunct1] 4 5)
qed

section \<open>\<open>Channel.post\<close>\<close>

lemma addMessage_store_ok:
  assumes ok: "store_ok d"
    and ps: "set (parents m) \<subseteq> dom (messageByHash d)"
    and h: "0 \<le> height m"
  shows "store_ok (Memory_addMessage m d)"
proof (cases "messageByHash d (hash m)")
  case (Some m')
  with ok show ?thesis by (simp add: Memory_addMessage_def)
next
  case None
  from ok have inv: "storage_inv d" and hs: "heights_ok d" and ms: "messages_ok d"
    by (simp_all add: store_ok_def)
  have ran': "ran (messageByHash (Memory_addMessage m d)) = insert m (ran (messageByHash d))"
    using None by (simp add: Memory_addMessage_def)
  have set': "set (messages (Memory_addMessage m d)) = insert m (set (messages d))"
    using None by (simp add: Memory_addMessage_def)
  have "heights_ok (Memory_addMessage m d)"
    using hs h unfolding heights_ok_def ran' by simp
  moreover have "messages_ok (Memory_addMessage m d)"
    using ms unfolding messages_ok_def ran' set' by simp
  moreover have "storage_inv (Memory_addMessage m d)"
    using inv ps by (rule addMessage_storage_inv)
  ultimately show ?thesis by (simp add: store_ok_def)
qed

lemma computeHeight_nonneg: "0 \<le> computeHeight ps"
  unfolding computeHeight_def by (rule foldl_max_ge_init)

lemma receive_store_cases_height:
  "snd (receive sod cod chan now m d) = d \<or>
   (\<exists>c ps. those (Channel_getMessages d (parents m)) = Some ps \<and> height m = computeHeight ps \<and>
      snd (receive sod cod chan now m d) = Memory_addMessage (decrypted m c) d)"
  unfolding receive_def
  by (auto split: if_splits sum.splits option.splits prod.splits)

lemma receive_store_ok:
  assumes "store_ok d"
  shows "store_ok (snd (receive sod cod chan now m d))"
proof -
  from receive_store_cases_height[of sod cod chan now m d]
  show ?thesis
  proof
    assume "snd (receive sod cod chan now m d) = d"
    with assms show ?thesis by simp
  next
    assume "\<exists>c ps. those (Channel_getMessages d (parents m)) = Some ps \<and>
      height m = computeHeight ps \<and>
      snd (receive sod cod chan now m d) = Memory_addMessage (decrypted m c) d"
    then obtain c ps where ps: "those (Channel_getMessages d (parents m)) = Some ps"
      and h: "height m = computeHeight ps"
      and s: "snd (receive sod cod chan now m d) = Memory_addMessage (decrypted m c) d"
      by blast
    have "set (parents (decrypted m c)) \<subseteq> dom (messageByHash d)"
      using those_all_defined[OF ps] by (simp add: decrypted_def)
    moreover have "0 \<le> height (decrypted m c)"
      using h computeHeight_nonneg by (simp add: decrypted_def)
    ultimately show ?thesis
      unfolding s using assms by (intro addMessage_store_ok)
  qed
qed

lemma Message_new_height:
  "Message_new sod cod rnd opts = Inr m \<Longrightarrow> height m = opt_height opts"
  unfolding Message_new_def Let_def
  by (auto split: sum.splits if_splits)

lemma post_accepted_cases:
  assumes "post sod cod chan rnd b ident ts d = (Inr m, d')"
  obtains lvs c and m0 :: "content option message" where
    "b \<noteq> Root"
    "those (Channel_getLeaves d) = Some lvs"
    "filterParents lvs \<noteq> []"
    "signMessageBody sod cod ident b chan (map hash (filterParents lvs))
        (computeHeight (filterParents lvs)) (adjustTimestamp (filterParents lvs) ts) = Inr c"
    "parents m0 = map hash (filterParents lvs)"
    "height m0 = computeHeight (filterParents lvs)"
    "m = decrypted m0 c"
    "d' = Memory_addMessage m d"
proof -
  from post_result_cases[of sod cod chan rnd b ident ts d] assms
  obtain lvs c m0 where *: "b \<noteq> Root" "those (Channel_getLeaves d) = Some lvs"
    "filterParents lvs \<noteq> []"
    "signMessageBody sod cod ident b chan (map hash (filterParents lvs))
        (computeHeight (filterParents lvs)) (adjustTimestamp (filterParents lvs) ts) = Inr c"
    "Message_new sod cod rnd
        \<lparr>opt_channel = Some chan, opt_channelId = None,
         opt_parents = map hash (filterParents lvs),
         opt_height = computeHeight (filterParents lvs),
         opt_nonce = None, opt_content = Some c, opt_encryptedContent = None\<rparr> = Inr m0"
    "post sod cod chan rnd b ident ts d =
        (Inr (decrypted m0 c), Memory_addMessage (decrypted m0 c) d)"
    by auto
  from assms *(6) have md: "m = decrypted m0 c" "d' = Memory_addMessage (decrypted m0 c) d"
    by auto
  from Message_new_parents[OF *(5)] Message_new_height[OF *(5)] md
  have "parents m0 = map hash (filterParents lvs)"
    "height m0 = computeHeight (filterParents lvs)"
    "m = decrypted m0 c" "d' = Memory_addMessage m d"
    by simp_all
  with *(1-4) show ?thesis
    by (rule that)
qed

lemma post_store_ok:
  assumes "store_ok d"
  shows "store_ok (snd (post sod cod chan rnd b ident ts d))"
proof (cases "post sod cod chan rnd b ident ts d")
  case (Pair res d')
  show ?thesis
  proof (cases res)
    case (Inl e)
    with Pair post_result_cases[of sod cod chan rnd b ident ts d] have "d' = d"
      by auto
    with Pair assms show ?thesis by simp
  next
    case (Inr m)
    with Pair have p: "post sod cod chan rnd b ident ts d = (Inr m, d')"
      by simp
    from p obtain lvs c and m0 :: "content option message"
      where lvs: "those (Channel_getLeaves d) = Some lvs"
        and pm: "parents m0 = map hash (filterParents lvs)"
        and hm: "height m0 = computeHeight (filterParents lvs)"
        and m: "m = decrypted m0 c" and d': "d' = Memory_addMessage m d"
      by (rule post_accepted_cases)
    from assms have "keys_ok d"
      by (simp add: store_ok_def storage_inv_def)
    from leaves_resolved[OF this lvs]
    have "set (parents m) \<subseteq> dom (messageByHash d)"
      by (auto simp: m decrypted_def pm filterParents_def Let_def)
    moreover have "0 \<le> height m"
      using hm computeHeight_nonneg by (simp add: m decrypted_def)
    ultimately have "store_ok (Memory_addMessage m d)"
      using assms by (intro addMessage_store_ok)
    with Pair d' show ?thesis by simp
  qed
qed

lemma store_ok_empty: "store_ok empty_data"
  using storage_inv_empty
  by (simp add: store_ok_def heights_ok_def messages_ok_def empty_data_def)

lemma run_ops_store_ok:
  "store_ok d \<Longrightarrow> store_ok (run_ops sod cod chan ops d)"
  unfolding run_ops_def
proof (induction ops arbitrary: d)
  case Nil
  then show ?case by simp
next
  case (Cons op ops)
  have "store_ok (apply_op sod cod chan d op)"
    using Cons.prems by (cases op) (simp_all add: receive_store_ok post_store_ok)
  then show ?case
    using Cons.IH by simp
qed

lemma store_ok_no_messages:
  assumes "store_ok d" and "Channel_getMessageCount d = 0"
  shows "those (Channel_getLeaves d) = Some []"
proof -
  from assms(1) have k: "keys_ok d" and l: "leaves_closure d" and ms: "messages_ok d"
    by (simp_all add: store_ok_def storage_inv_def)
  from assms(2) have "messages d = []"
    by (simp add: Channel_getMessageCount_def Memory_getMessageCount_def)
  with ms have "ran (messageByHash d) = {}"
    by (simp add: messages_ok_def)
  with l have "leaves d = []"
    by (simp add: leaves_closure_def)
  then show ?thesis
    by (simp add: Channel_getLeaves_def Memory_getLeaves_def)
qed

lemma leaves_in_ran:
  assumes "those (Channel_getLeaves d) = Some lvs"
  shows "set lvs \<subseteq> ran (messageByHash d)"
proof -
  let ?hs = "take MAX_LEAVES_COUNT (leaves d)"
  have "those (map (messageByHash d) ?hs) = Some lvs"
    using assms
    by (simp add: Channel_getLeaves_def Memory_getLeaves_def take_map)
       (metis Memory_getMessage_def map_eq_conv)
  from those_map_Some[OF this]
  have "lvs = map (\<lambda>h. the (messageByHash d h)) ?hs"
    and "\<forall>h\<in>set ?hs. messageByHash d h \<noteq> None"
    by simp_all
  then show ?thesis
    by (auto simp: ran_def)
qed

lemma those_map_Some_id: "those (map Some ls) = Some ls"
  by (induction ls) simp_all

lemma leaves_resolve:
  assumes "storage_inv d"
  shows "\<exists>lvs. those (Channel_getLeaves d) = Some lvs \<and>
               map hash lvs = take MAX_LEAVES_COUNT (leaves d)"
proof -
  from getLeaves_hashes[OF assms] obtain ls where ls: "those (Memory_getLeaves d) = Some ls"
    "map hash ls = leaves d"
    by blast
  from ls(1) have "Memory_getLeaves d = map Some ls"
    by (rule those_map_Some_eq)
  then have "Channel_getLeaves d = map Some (take MAX_LEAVES_COUNT ls)"
    by (simp add: Channel_getLeaves_def take_map)
  then have "those (Channel_getLeaves d) = Some (take MAX_LEAVES_COUNT ls)"
    by (simp add: those_map_Some_id)
  moreover have "map hash (take MAX_LEAVES_COUNT ls) = take MAX_LEAVES_COUNT (leaves d)"
    unfolding ls(2)[symmetric] by (simp add: take_map)
  ultimately show ?thesis by blast
qed

lemma Num_timestamp_member:
  assumes "map (\<lambda>p. timestamp (content p)) ps = map Num us"
  shows "u \<in> set us \<longleftrightarrow> (\<exists>p\<in>set ps. timestamp (content p) = Num u)"
proof -
  have "Num u \<in> set (map Num us) \<longleftrightarrow> u \<in> set us"
    by auto
  moreover have "Num u \<in> set (map (\<lambda>p. timestamp (content p)) ps) \<longleftrightarrow>
      (\<exists>p\<in>set ps. timestamp (content p) = Num u)"
    by force
  ultimately show ?thesis
    using assms by simp
qed

lemma adjustTimestamp_Num:
  assumes "map (\<lambda>p. timestamp (content p)) ps = map Num ks"
  shows "adjustTimestamp ps ts = (case ts of NaN \<Rightarrow> NaN | Num r \<Rightarrow> Num (Max (insert r (set ks))))"
proof (cases ts)
  case NaN
  then show ?thesis
    by (simp add: adjustTimestamp_def foldl_Math_max_NaN)
next
  case (Num r)
  then show ?thesis
    unfolding adjustTimestamp_def using foldl_Math_max_Num[OF assms, of r] by simp
qed

lemma post_returns:
  assumes "b \<noteq> Root"
    and "those (Channel_getLeaves d) = Some lvs"
    and "filterParents lvs \<noteq> []"
    and "channel_chains ident (chan_id chan) = Some links"
    and "checkJSONLimit (body_json b) (length links) = Inr ()"
    and "length (chan_id chan) = 32"
    and "list_all (\<lambda>p. length (hash p) = 32) lvs"
  shows "\<exists>m d'. post sod cod chan rnd b ident ts d = (Inr m, d')"
proof -
  from assms(7) have hs: "\<not> (\<exists>h\<in>set (map hash (filterParents lvs)). length h \<noteq> HASH_SIZE)"
    by (auto simp: list_all_iff filterParents_def Let_def HASH_SIZE_def)
  have "\<not> computeHeight (filterParents lvs) < 0"
    using computeHeight_nonneg[of "filterParents lvs"] by simp
  with assms hs show ?thesis
    by (simp add: post_def Let_def signMessageBody_def Message_new_def checkId_def
        map_throw_checkHash ID_SIZE_def)
qed

lemma post_returned:
  assumes "heights_ok d"
    and "post sod cod chan rnd b ident ts d = (Inr m, d')"
  shows "\<exists>ls. those (Channel_getLeaves d) = Some ls \<and> filterParents ls \<noteq> [] \<and>
              parents m = map hash (filterParents ls) \<and>
              height m = 1 + Max (height ` set (filterParents ls)) \<and>
              timestamp (content m) = adjustTimestamp (filterParents ls) ts \<and>
              d' = Memory_addMessage m d"
proof -
  from assms(2) obtain ls c and m0 :: "content option message"
    where ls: "those (Channel_getLeaves d) = Some ls"
      and ne: "filterParents ls \<noteq> []"
      and sg: "signMessageBody sod cod ident b chan (map hash (filterParents ls))
        (computeHeight (filterParents ls)) (adjustTimestamp (filterParents ls) ts) = Inr c"
      and pm: "parents m0 = map hash (filterParents ls)"
      and hm: "height m0 = computeHeight (filterParents ls)"
      and m: "m = decrypted m0 c" and d': "d' = Memory_addMessage m d"
    by (rule post_accepted_cases)
  from assms(1) leaves_in_ran[OF ls] have "\<forall>p\<in>set (filterParents ls). 0 \<le> height p"
    by (auto simp: heights_ok_def filterParents_def Let_def)
  with ne have h: "computeHeight (filterParents ls) = 1 + Max (height ` set (filterParents ls))"
    by (rule computeHeight_Max)
  from sg have "timestamp c = adjustTimestamp (filterParents ls) ts"
    by (auto simp: signMessageBody_def split: option.splits sum.splits)
  then have t: "timestamp (content m) = adjustTimestamp (filterParents ls) ts"
    by (simp add: m decrypted_def)
  from pm hm h have "parents m = map hash (filterParents ls)"
    "height m = 1 + Max (height ` set (filterParents ls))"
    by (simp_all add: m decrypted_def)
  with ls ne t d' show ?thesis
    by blast
qed

lemmas post_defs = post_def Channel_getLeaves_def Memory_getLeaves_def
  Channel_getMessageCount_def Memory_getMessageCount_def adjustTimestamp_def
  signMessageBody_def identA_def Message_new_def checkId_def checkHash_def Let_def

lemma receive_wire_grand_store2:
  "receive test_sodium test_codec chanA 20 (wire msg_grand) store2
     = (Inr True, Memory_addMessage stored_grand store2)"
  by (simp add: receive_defs test_defs const_defs wire_defs msg_grand_def hash_grand_def
      stored_grand_def)

lemma receive_wire_late:
  "receive test_sodium test_codec chanA 3000000 (wire msg_late)
     (Memory_addMessage stored_grand store2) = (Inr True, store3)"
  by (simp add: receive_defs test_defs const_defs wire_defs msg_late_def hash_late_def
      msg_grand_def hash_grand_def stored_grand_def stored_late_def store3_def
      less_char_def less_eq_char_def)

lemma run_store3:
  "run_ops test_sodium test_codec chanA
     [Receive 20 msg_root1, Receive 20 (wire msg_child), Receive 20 (wire msg_grand),
      Receive 3000000 (wire msg_late)] empty_data = store3"
  by (simp add: run_ops_def receive_root1_empty receive_wire_child_store1
      receive_wire_grand_store2 receive_wire_late)

lemma run_store_nan:
  "run_ops test_sodium test_codec chanA [Receive 20 msg_root1, Receive 20 (wire msg_nan)]
     empty_data = store_nan"
  by (simp add: run_ops_def receive_root1_empty receive_wire_nan_store1)

lemma leaves_store3:
  "those (Channel_getLeaves store3) = Some [stored_grand, stored_late]"
  by (simp add: Channel_getLeaves_def Memory_getLeaves_def Memory_getMessage_def store3_def
      MAX_LEAVES_COUNT_def hash_child_def hash_root1_def hash_grand_def hash_late_def)

lemma constructed_grand:
  "Message_new test_sodium test_codec test_rnd (test_options [hash_child] 2 content_grand)
     = Inr msg_grand"
  by (simp add: Message_new_defs test_sodium_def chanA_def test_nonce msg_grand_def
      hash_child_def)
     (simp add: codec_defs content_grand_def hash_grand_def hash_child_def)

lemma constructed_late:
  "Message_new test_sodium test_codec test_rnd (test_options [hash_root1] 1 content_late)
     = Inr msg_late"
  by (simp add: Message_new_defs test_sodium_def chanA_def test_nonce msg_late_def
      hash_root1_def)
     (simp add: codec_defs content_late_def hash_late_def hash_root1_def)

lemma post_store3:
  "case fst (post test_sodium test_codec chanA test_rnd (Json ''{}'') identA (Num 3000001)
               store3) of
     Inl e \<Rightarrow> False
   | Inr m \<Rightarrow> height m = 2 \<and> parents m = [hash_late]"
  by (simp add: post_defs receive_defs test_defs const_defs test_nonce test_mac_def
      test_content_encode_def store3_def stored_grand_def stored_late_def content_grand_def
      content_late_def hash_grand_def hash_late_def)

text \<open>
  C6, as stated, fails for the height: \<open>receive\<close> accepts \<open>msg_root1\<close>, \<open>msg_child\<close>,
  \<open>msg_grand\<close> and then, at time 3000000, \<open>msg_late\<close>. The leaves are \<open>msg_grand\<close>,
  of height 2 and time 13, and \<open>msg_late\<close>, of height 1 and time 3000000. A post
  at time 3000001 returns a message whose only parent is \<open>msg_late\<close> and whose
  height is 2, where 1 + the greatest height of the leaves is 3.
\<close>

theorem post_height_kept_leaves:
  "Message_new test_sodium test_codec test_rnd (test_options [hash_child] 2 content_grand)
     = Inr msg_grand
   \<and> Message_new test_sodium test_codec test_rnd (test_options [hash_root1] 1 content_late)
       = Inr msg_late
   \<and> run_ops test_sodium test_codec chanA
       [Receive 20 msg_root1, Receive 20 (wire msg_child), Receive 20 (wire msg_grand),
        Receive 3000000 (wire msg_late)] empty_data = store3
   \<and> those (Channel_getLeaves store3) = Some [stored_grand, stored_late]
   \<and> height stored_grand = 2
   \<and> height stored_late = 1
   \<and> timestamp (content stored_grand) = Num 13
   \<and> timestamp (content stored_late) = Num 3000000
   \<and> 1 + Max (height ` set [stored_grand, stored_late]) = 3
   \<and> (case fst (post test_sodium test_codec chanA test_rnd (Json ''{}'') identA (Num 3000001)
                  store3) of
         Inl e \<Rightarrow> False
       | Inr m \<Rightarrow> height m = 2 \<and> parents m = [hash_late])"
proof -
  have 1: "height stored_grand = 2" "height stored_late = 1"
    "timestamp (content stored_grand) = Num 13"
    "timestamp (content stored_late) = Num 3000000"
    "1 + Max (height ` set [stored_grand, stored_late]) = 3"
    by (simp_all add: stored_grand_def stored_late_def test_message_def content_grand_def
        content_late_def signed_content_def)
  show ?thesis
    by (intro conjI constructed_grand constructed_late run_store3 leaves_store3 1 post_store3)
qed

text \<open>
  C6, amended. The leaves that \<open>Channel.post\<close> reads are the stored messages of the
  first 128 hashes of the leaf set. \<open>post\<close> refuses a \<open>Root\<close> body. On a channel
  with no messages it fails with "Initial synchronization not complete". The
  filter keeps a leaf when its timestamp is at least the greatest of 0 and the
  timestamps of the leaves, minus 30 days (2592000 seconds); when the timestamp
  of a leaf is \<open>NaN\<close> it keeps none. When it keeps no leaf although the channel
  has messages, \<open>post\<close> fails with "Internal error: no leaves". When it keeps a
  leaf, the identity has a chain for the channel, the JSON is within the limit
  of that chain and the channel id and the hashes of the leaves have their 32
  bytes, \<open>post\<close> returns a message. A message that it returns has the kept leaves
  as its parents, a height of 1 + the greatest height of the kept leaves, and as
  its timestamp the greatest of the requested timestamp and the timestamps of
  the kept leaves, \<open>NaN\<close> when the requested timestamp is \<open>NaN\<close>; it is added to
  the storage.
\<close>

theorem post_contract:
  assumes "store_ok d"
  shows "(\<exists>lvs. those (Channel_getLeaves d) = Some lvs \<and> map hash lvs = take 128 (leaves d))
       \<and> (b = Root \<longrightarrow>
            post sod cod chan rnd b ident ts d = (Inl (Error ''Posting root is not allowed''), d))
       \<and> (b \<noteq> Root \<and> Channel_getMessageCount d = 0 \<longrightarrow>
            post sod cod chan rnd b ident ts d =
              (Inl (Error ''Initial synchronization not complete''), d))
       \<and> (b \<noteq> Root \<and> Channel_getMessageCount d \<noteq> 0 \<and>
          those (Channel_getLeaves d) = Some lvs \<and>
          (\<exists>p\<in>set lvs. timestamp (content p) = NaN) \<longrightarrow>
            post sod cod chan rnd b ident ts d = (Inl (Error ''Internal error: no leaves''), d))
       \<and> (b \<noteq> Root \<and> Channel_getMessageCount d \<noteq> 0 \<and>
          those (Channel_getLeaves d) = Some lvs \<and>
          map (\<lambda>p. timestamp (content p)) lvs = map Num us \<and>
          (\<forall>u\<in>set us. u < Max (insert 0 (set us)) - 2592000) \<longrightarrow>
            post sod cod chan rnd b ident ts d = (Inl (Error ''Internal error: no leaves''), d))
       \<and> (b \<noteq> Root \<and> those (Channel_getLeaves d) = Some lvs \<and>
          map (\<lambda>p. timestamp (content p)) lvs = map Num us \<and>
          (\<exists>u\<in>set us. Max (insert 0 (set us)) - 2592000 \<le> u) \<and>
          channel_chains ident (chan_id chan) = Some links \<and>
          checkJSONLimit (body_json b) (length links) = Inr () \<and>
          length (chan_id chan) = 32 \<and> list_all (\<lambda>p. length (hash p) = 32) lvs \<longrightarrow>
            (\<exists>m' d''. post sod cod chan rnd b ident ts d = (Inr m', d'')))
       \<and> (post sod cod chan rnd b ident ts d = (Inr m, d') \<longrightarrow>
            (\<exists>ls us ks.
               those (Channel_getLeaves d) = Some ls \<and>
               map (\<lambda>p. timestamp (content p)) ls = map Num us \<and>
               (let kept = filter (\<lambda>p. \<exists>u. timestamp (content p) = Num u \<and>
                                          Max (insert 0 (set us)) - 2592000 \<le> u) ls
                in kept \<noteq> [] \<and>
                   parents m = map hash kept \<and>
                   height m = 1 + Max (height ` set kept) \<and>
                   map (\<lambda>p. timestamp (content p)) kept = map Num ks \<and>
                   timestamp (content m) =
                     (case ts of NaN \<Rightarrow> NaN | Num r \<Rightarrow> Num (Max (insert r (set ks)))) \<and>
                   d' = Memory_addMessage m d)))"
proof (intro conjI impI)
  from assms have "storage_inv d"
    by (simp add: store_ok_def)
  from leaves_resolve[OF this]
  show "\<exists>lvs. those (Channel_getLeaves d) = Some lvs \<and> map hash lvs = take 128 (leaves d)"
    by (simp add: MAX_LEAVES_COUNT_def)
next
  assume "b = Root"
  then show "post sod cod chan rnd b ident ts d = (Inl (Error ''Posting root is not allowed''), d)"
    by (simp add: post_def)
next
  assume a: "b \<noteq> Root \<and> Channel_getMessageCount d = 0"
  with store_ok_no_messages[OF assms] have "those (Channel_getLeaves d) = Some []"
    by simp
  with a show "post sod cod chan rnd b ident ts d =
      (Inl (Error ''Initial synchronization not complete''), d)"
    by (simp add: post_def filterParents_def)
next
  assume a: "b \<noteq> Root \<and> Channel_getMessageCount d \<noteq> 0 \<and>
          those (Channel_getLeaves d) = Some lvs \<and>
          (\<exists>p\<in>set lvs. timestamp (content p) = NaN)"
  then have "filterParents lvs = []"
    by (simp add: filterParents_NaN)
  with a show "post sod cod chan rnd b ident ts d = (Inl (Error ''Internal error: no leaves''), d)"
    by (simp add: post_def)
next
  assume a: "b \<noteq> Root \<and> Channel_getMessageCount d \<noteq> 0 \<and>
          those (Channel_getLeaves d) = Some lvs \<and>
          map (\<lambda>p. timestamp (content p)) lvs = map Num us \<and>
          (\<forall>u\<in>set us. u < Max (insert 0 (set us)) - 2592000)"
  then have us: "map (\<lambda>p. timestamp (content p)) lvs = map Num us"
    by simp
  have "\<not> (\<exists>u. timestamp (content p) = Num u \<and> Max (insert 0 (set us)) - 2592000 \<le> u)"
    if "p \<in> set lvs" for p
  proof
    assume "\<exists>u. timestamp (content p) = Num u \<and> Max (insert 0 (set us)) - 2592000 \<le> u"
    then obtain u where u: "timestamp (content p) = Num u" "Max (insert 0 (set us)) - 2592000 \<le> u"
      by blast
    from u(1) that have "u \<in> set us"
      unfolding Num_timestamp_member[OF us] by blast
    with a have "u < Max (insert 0 (set us)) - 2592000"
      by blast
    with u(2) show False by simp
  qed
  then have "filterParents lvs = []"
    unfolding filterParents_Num[OF us] by (simp add: filter_empty_conv)
  with a show "post sod cod chan rnd b ident ts d = (Inl (Error ''Internal error: no leaves''), d)"
    by (simp add: post_def)
next
  assume a: "b \<noteq> Root \<and> those (Channel_getLeaves d) = Some lvs \<and>
          map (\<lambda>p. timestamp (content p)) lvs = map Num us \<and>
          (\<exists>u\<in>set us. Max (insert 0 (set us)) - 2592000 \<le> u) \<and>
          channel_chains ident (chan_id chan) = Some links \<and>
          checkJSONLimit (body_json b) (length links) = Inr () \<and>
          length (chan_id chan) = 32 \<and> list_all (\<lambda>p. length (hash p) = 32) lvs"
  then have us: "map (\<lambda>p. timestamp (content p)) lvs = map Num us"
    by simp
  from a obtain u where u: "u \<in> set us" "Max (insert 0 (set us)) - 2592000 \<le> u"
    by blast
  from u(1) obtain p where "p \<in> set lvs" "timestamp (content p) = Num u"
    unfolding Num_timestamp_member[OF us] by blast
  with u(2) have "filterParents lvs \<noteq> []"
    unfolding filterParents_Num[OF us] by (auto simp: filter_empty_conv)
  with a show "\<exists>m' d''. post sod cod chan rnd b ident ts d = (Inr m', d'')"
    by (intro post_returns[where lvs = lvs and links = links]) simp_all
next
  assume p: "post sod cod chan rnd b ident ts d = (Inr m, d')"
  from assms have "heights_ok d"
    by (simp add: store_ok_def)
  from post_returned[OF this p]
  obtain ls where ls: "those (Channel_getLeaves d) = Some ls"
    and ne: "filterParents ls \<noteq> []"
    and pm: "parents m = map hash (filterParents ls)"
    and hm: "height m = 1 + Max (height ` set (filterParents ls))"
    and tm: "timestamp (content m) = adjustTimestamp (filterParents ls) ts"
    and d': "d' = Memory_addMessage m d"
    by blast
  from NaN_or_Num[of ls "\<lambda>p. timestamp (content p)"] ne filterParents_NaN[of ls]
  obtain us where us: "map (\<lambda>p. timestamp (content p)) ls = map Num us"
    by blast
  let ?kept = "filter (\<lambda>p. \<exists>u. timestamp (content p) = Num u \<and>
                            Max (insert 0 (set us)) - 2592000 \<le> u) ls"
  have k: "filterParents ls = ?kept"
    by (rule filterParents_Num[OF us])
  have "\<not> (\<exists>p\<in>set ?kept. timestamp (content p) = NaN)"
    by auto
  with NaN_or_Num[of ?kept "\<lambda>p. timestamp (content p)"]
  obtain ks where ks: "map (\<lambda>p. timestamp (content p)) ?kept = map Num ks"
    by blast
  from adjustTimestamp_Num[OF ks, of ts] tm
  have t: "timestamp (content m) =
      (case ts of NaN \<Rightarrow> NaN | Num r \<Rightarrow> Num (Max (insert r (set ks))))"
    by (simp add: k)
  from ne pm hm have "?kept \<noteq> []" "parents m = map hash ?kept"
    "height m = 1 + Max (height ` set ?kept)"
    unfolding k by simp_all
  with ls us ks t d'
  show "\<exists>ls us ks.
               those (Channel_getLeaves d) = Some ls \<and>
               map (\<lambda>p. timestamp (content p)) ls = map Num us \<and>
               (let kept = filter (\<lambda>p. \<exists>u. timestamp (content p) = Num u \<and>
                                          Max (insert 0 (set us)) - 2592000 \<le> u) ls
                in kept \<noteq> [] \<and>
                   parents m = map hash kept \<and>
                   height m = 1 + Max (height ` set kept) \<and>
                   map (\<lambda>p. timestamp (content p)) kept = map Num ks \<and>
                   timestamp (content m) =
                     (case ts of NaN \<Rightarrow> NaN | Num r \<Rightarrow> Num (Max (insert r (set ks)))) \<and>
                   d' = Memory_addMessage m d)"
    unfolding Let_def by blast
qed

lemma store_ok_store2: "store_ok store2"
  using run_ops_store_ok[OF store_ok_empty, of test_sodium test_codec chanA
      "[Receive 20 msg_root1, Receive 20 msg_child]"]
  by (simp add: run_two_receives)

lemma store_ok_store3: "store_ok store3"
  using run_ops_store_ok[OF store_ok_empty, of test_sodium test_codec chanA
      "[Receive 20 msg_root1, Receive 20 (wire msg_child), Receive 20 (wire msg_grand),
        Receive 3000000 (wire msg_late)]"]
  by (simp only: run_store3)

lemma store_ok_store_nan: "store_ok store_nan"
  using run_ops_store_ok[OF store_ok_empty, of test_sodium test_codec chanA
      "[Receive 20 msg_root1, Receive 20 (wire msg_nan)]"]
  by (simp only: run_store_nan)

lemma store_ok_store_old: "store_ok store_old"
  by (simp add: store_ok_def heights_ok_def storage_inv_def keys_ok_def parents_stored_def
      leaves_closure_def messages_ok_def store_old_def test_message_def stored_old_def)

lemma leaves_store_nan:
  "those (Channel_getLeaves store_nan) = Some [stored_nan]"
  by (simp add: Channel_getLeaves_def Memory_getLeaves_def Memory_getMessage_def store_nan_def
      MAX_LEAVES_COUNT_def hash_nan_def hash_root1_def)

lemma leaves_store_old:
  "those (Channel_getLeaves store_old) = Some [stored_old]"
  by (simp add: Channel_getLeaves_def Memory_getLeaves_def Memory_getMessage_def store_old_def
      MAX_LEAVES_COUNT_def)

theorem post_contract_witness:
  "store_ok store2 \<and> store_ok empty_data \<and> store_ok store_nan \<and> store_ok store_old
   \<and> store_ok store3
   \<and> (\<exists>lvs. those (Channel_getLeaves store3) = Some lvs \<and>
           map hash lvs = take 128 (leaves store3))
   \<and> post test_sodium test_codec chanA test_rnd Root identA (Num 15) store2 =
       (Inl (Error ''Posting root is not allowed''), store2)
   \<and> post test_sodium test_codec chanA test_rnd (Json ''{}'') identA (Num 15) empty_data =
       (Inl (Error ''Initial synchronization not complete''), empty_data)
   \<and> receive test_sodium test_codec chanA 20 (wire msg_nan) store1 = (Inr True, store_nan)
   \<and> timestamp (content stored_nan) = NaN
   \<and> post test_sodium test_codec chanA test_rnd (Json ''{}'') identA (Num 15) store_nan =
       (Inl (Error ''Internal error: no leaves''), store_nan)
   \<and> post test_sodium test_codec chanA test_rnd (Json ''{}'') identA (Num 15) store_old =
       (Inl (Error ''Internal error: no leaves''), store_old)
   \<and> (\<exists>m' d''. post test_sodium test_codec chanA test_rnd (Json ''{}'') identA (Num 3000001)
                  store3 = (Inr m', d''))
   \<and> post test_sodium test_codec chanA test_rnd (Json ''{}'') identA (Num 15) store2
       = (Inr stored_posted, store4)
   \<and> parents stored_posted = [hash_child]
   \<and> height stored_posted = 2
   \<and> timestamp (content stored_posted) = Num 15
   \<and> (\<exists>ls us ks.
         those (Channel_getLeaves store2) = Some ls \<and>
         map (\<lambda>p. timestamp (content p)) ls = map Num us \<and>
         (let kept = filter (\<lambda>p. \<exists>u. timestamp (content p) = Num u \<and>
                                    Max (insert 0 (set us)) - 2592000 \<le> u) ls
          in kept \<noteq> [] \<and>
             parents stored_posted = map hash kept \<and>
             height stored_posted = 1 + Max (height ` set kept) \<and>
             map (\<lambda>p. timestamp (content p)) kept = map Num ks \<and>
             timestamp (content stored_posted) =
               (case Num 15 of NaN \<Rightarrow> NaN | Num r \<Rightarrow> Num (Max (insert r (set ks)))) \<and>
             store4 = Memory_addMessage stored_posted store2))"
proof -
  note th2 = post_contract[OF store_ok_store2, where sod = test_sodium and cod = test_codec
      and chan = chanA and rnd = test_rnd and ident = identA]
  note root = th2[THEN conjunct2, THEN conjunct1, rule_format]
  note returned = th2[THEN conjunct2, THEN conjunct2, THEN conjunct2, THEN conjunct2,
      THEN conjunct2, THEN conjunct2, rule_format]
  note nosync = post_contract[OF store_ok_empty, THEN conjunct2, THEN conjunct2, THEN conjunct1,
      rule_format]
  note noleaves_nan = post_contract[OF store_ok_store_nan, THEN conjunct2, THEN conjunct2,
      THEN conjunct2, THEN conjunct1, rule_format]
  note noleaves_old = post_contract[OF store_ok_store_old, THEN conjunct2, THEN conjunct2,
      THEN conjunct2, THEN conjunct2, THEN conjunct1, rule_format]
  note returns = post_contract[OF store_ok_store3, THEN conjunct2, THEN conjunct2,
      THEN conjunct2, THEN conjunct2, THEN conjunct2, THEN conjunct1, rule_format]
  have 0: "\<exists>lvs. those (Channel_getLeaves store3) = Some lvs \<and>
           map hash lvs = take 128 (leaves store3)"
    by (rule post_contract[OF store_ok_store3, THEN conjunct1])
  have 1: "post test_sodium test_codec chanA test_rnd Root identA (Num 15) store2 =
       (Inl (Error ''Posting root is not allowed''), store2)"
    by (rule root) simp
  have "Channel_getMessageCount empty_data = 0"
    by (simp add: Channel_getMessageCount_def Memory_getMessageCount_def empty_data_def)
  then have 2: "post test_sodium test_codec chanA test_rnd (Json ''{}'') identA (Num 15)
       empty_data = (Inl (Error ''Initial synchronization not complete''), empty_data)"
    by (intro nosync) simp
  have n: "timestamp (content stored_nan) = NaN"
    by (simp add: stored_nan_def test_message_def content_nan_def signed_content_def)
  have "Channel_getMessageCount store_nan \<noteq> 0"
    by (simp add: Channel_getMessageCount_def Memory_getMessageCount_def store_nan_def)
  then have 3: "post test_sodium test_codec chanA test_rnd (Json ''{}'') identA (Num 15)
       store_nan = (Inl (Error ''Internal error: no leaves''), store_nan)"
    using leaves_store_nan n
    by (intro noleaves_nan[where lvs = "[stored_nan]"]) simp
  have o: "map (\<lambda>p. timestamp (content p)) [stored_old] = map Num [- 3000000]"
    by (simp add: stored_old_def test_message_def content_old_def signed_content_def)
  have "Channel_getMessageCount store_old \<noteq> 0"
    by (simp add: Channel_getMessageCount_def Memory_getMessageCount_def store_old_def)
  then have 4: "post test_sodium test_codec chanA test_rnd (Json ''{}'') identA (Num 15)
       store_old = (Inl (Error ''Internal error: no leaves''), store_old)"
    using leaves_store_old o
    by (intro noleaves_old[where lvs = "[stored_old]" and us = "[- 3000000]"]) simp
  have t3: "map (\<lambda>p. timestamp (content p)) [stored_grand, stored_late]
              = map Num [13, 3000000]"
    by (simp add: stored_grand_def stored_late_def test_message_def content_grand_def
        content_late_def signed_content_def)
  have pre: "channel_chains identA (chan_id chanA) = Some []"
    "checkJSONLimit (body_json (Json ''{}'')) (length ([] :: link list)) = Inr ()"
    "length (chan_id chanA) = 32"
    "list_all (\<lambda>p. length (hash p) = 32) [stored_grand, stored_late]"
    by (simp_all add: identA_def chanA_def checkJSONLimit_def jsonLimit_def test_message_def
        stored_grand_def stored_late_def hash_grand_def hash_late_def)
  have 5: "\<exists>m' d''. post test_sodium test_codec chanA test_rnd (Json ''{}'') identA
                  (Num 3000001) store3 = (Inr m', d'')"
    using leaves_store3 t3 pre
    by (intro returns[where lvs = "[stored_grand, stored_late]" and us = "[13, 3000000]"
          and links = "[]"]) simp
  have 6: "parents stored_posted = [hash_child]" "height stored_posted = 2"
    "timestamp (content stored_posted) = Num 15"
    by (simp_all add: stored_posted_def test_message_def content_posted_def signed_content_def)
  note 7 = returned[OF post_store2]
  show ?thesis
    by (intro conjI store_ok_store2 store_ok_empty store_ok_store_nan store_ok_store_old
        store_ok_store3 0 1 2 receive_wire_nan_store1 n 3 4 5 post_store2 6 7)
qed

section \<open>\<open>SyncAgent.synchronize\<close>\<close>

text \<open>
  C9. Two calls of \<open>synchronize()\<close> in a row on a fresh agent: the second call
  moves the agent to \<open>pending\<close> and starts a second run of \<open>channel.sync\<close> at once;
  when one of the two runs resolves the agent starts a third; when the next one
  resolves the agent is \<open>idle\<close> with a run still under way. Calls that arrive
  while the agent is \<open>pending\<close> change nothing.
\<close>

theorem synchronize_while_active:
  "agent_run [Synchronize] new_agent =
     \<lparr>state = Active, destroyed = False, running = 1, started = 1\<rparr>
   \<and> agent_run [Synchronize, Synchronize] new_agent =
     \<lparr>state = Pending, destroyed = False, running = 2, started = 2\<rparr>
   \<and> agent_run [Synchronize, Synchronize, Synchronize, Synchronize] new_agent =
     \<lparr>state = Pending, destroyed = False, running = 2, started = 2\<rparr>
   \<and> agent_run [Synchronize, Synchronize, SyncResolved] new_agent =
     \<lparr>state = Active, destroyed = False, running = 2, started = 3\<rparr>
   \<and> agent_run [Synchronize, Synchronize, SyncResolved, SyncResolved] new_agent =
     \<lparr>state = Idle, destroyed = False, running = 1, started = 3\<rparr>
   \<and> agent_run [Synchronize, Synchronize, SyncResolved, SyncResolved, SyncResolved] new_agent =
     \<lparr>state = Idle, destroyed = False, running = 0, started = 3\<rparr>"
  by (simp add: agent_run_def new_agent_def synchronize_def sync_resolved_def call_sync_def)

end
